theory Spec2Isabelle
  imports Complex_Main "HOL-Library.Log_Nat"
begin

section \<open>The spaced-repetition scheduler of \<open>src/lib/srs.ts\<close>\<close>

text \<open>
  The scheduler is one function, \<open>nextSrs\<close>, over three numeric fields. Its arithmetic
  is JavaScript \<open>number\<close> arithmetic, that is IEEE-754 binary64, and its due date is a
  JavaScript \<open>Date\<close>. Both are embedded here as far as the function uses them:
  numbers as exact rationals together with the rounding of every operation, dates as a
  time value in milliseconds together with the calendar functions of ECMAScript.
\<close>

subsection \<open>JavaScript numbers\<close>

text \<open>
  A \<open>number\<close> is NaN, an infinity, the negative zero, or a finite value \<open>Fin q\<close>
  (\<open>Fin 0\<close> is the positive zero). A finite value that the program can hold is a
  binary64 value: the predicate \<open>is_double\<close> below says so.
\<close>

datatype number = NaN | PosInf | NegInf | NegZero | Fin rat

text \<open>\<open>ilog2 q\<close> is the binary exponent of a positive \<open>q\<close>: \<open>2 ^ e \<le> q < 2 ^ (e + 1)\<close>.\<close>

definition ilog2 :: "rat \<Rightarrow> int" where
  "ilog2 q = (if 1 \<le> q then bitlen \<lfloor>q\<rfloor> - 1 else - bitlen (\<lceil>1 / q\<rceil> - 1))"

text \<open>The exponent of the binade that holds \<open>q\<close>, the subnormal range having the least one.\<close>

definition binade :: "rat \<Rightarrow> int" where
  "binade q = max (ilog2 \<bar>q\<bar>) (- 1022)"

text \<open>The spacing of the binary64 values around \<open>q\<close> (53 significant bits).\<close>

definition ulp :: "rat \<Rightarrow> rat" where
  "ulp q = 2 powi (binade q - 52)"

definition round_half_even :: "rat \<Rightarrow> int" where
  "round_half_even x =
     (let f = \<lfloor>x\<rfloor>; d = x - of_int f
      in if d < 1 / 2 then f
         else if 1 / 2 < d then f + 1
         else if even f then f else f + 1)"

text \<open>
  \<open>fl q\<close> is the binary64 value of the exact result \<open>q\<close>: round to nearest, ties to
  even, overflow to an infinity, underflow to a zero of the sign of \<open>q\<close>. An exact zero
  is the positive zero (the sign rules of the operations are in the operations).
\<close>

definition fl :: "rat \<Rightarrow> number" where
  "fl q =
     (if q = 0 then Fin 0
      else
        let e = binade q;
            m = round_half_even (q / ulp q)
        in if 1024 \<le> e \<or> (e = 1023 \<and> \<bar>m\<bar> = 2 ^ 53) then (if 0 < q then PosInf else NegInf)
           else if m = 0 then (if 0 < q then Fin 0 else NegZero)
           else Fin (of_int m * ulp q))"

definition is_double :: "number \<Rightarrow> bool" where
  "is_double x = (case x of Fin q \<Rightarrow> fl q = Fin q | _ \<Rightarrow> True)"

fun is_NaN :: "number \<Rightarrow> bool" where
  "is_NaN NaN = True"
| "is_NaN _ = False"

fun is_inf :: "number \<Rightarrow> bool" where
  "is_inf PosInf = True"
| "is_inf NegInf = True"
| "is_inf _ = False"

fun is_zero :: "number \<Rightarrow> bool" where
  "is_zero NegZero = True"
| "is_zero (Fin q) = (q = 0)"
| "is_zero _ = False"

fun is_neg :: "number \<Rightarrow> bool" where
  "is_neg NegInf = True"
| "is_neg NegZero = True"
| "is_neg (Fin q) = (q < 0)"
| "is_neg _ = False"

text \<open>The value of a finite number; both zeros have the value 0.\<close>

fun val :: "number \<Rightarrow> rat" where
  "val (Fin q) = q"
| "val _ = 0"

text \<open>The comparison \<open>x < y\<close> of two numbers: false when either is NaN, and the zeros are equal.\<close>

definition js_lt :: "number \<Rightarrow> number \<Rightarrow> bool" where
  "js_lt x y =
     (if is_NaN x \<or> is_NaN y then False
      else if x = PosInf \<or> y = NegInf then False
      else if x = NegInf \<or> y = PosInf then True
      else val x < val y)"

text \<open>\<open>x <= y\<close>.\<close>

definition js_le :: "number \<Rightarrow> number \<Rightarrow> bool" where
  "js_le x y = (\<not> is_NaN x \<and> \<not> is_NaN y \<and> \<not> js_lt y x)"

text \<open>\<open>x === y\<close> on numbers: NaN differs from everything, the two zeros are equal.\<close>

definition js_strict_eq :: "number \<Rightarrow> number \<Rightarrow> bool" where
  "js_strict_eq x y =
     (if is_NaN x \<or> is_NaN y then False
      else if is_inf x \<or> is_inf y then x = y
      else val x = val y)"

text \<open>Unary minus.\<close>

fun js_neg :: "number \<Rightarrow> number" where
  "js_neg NaN = NaN"
| "js_neg PosInf = NegInf"
| "js_neg NegInf = PosInf"
| "js_neg NegZero = Fin 0"
| "js_neg (Fin q) = (if q = 0 then NegZero else Fin (- q))"

text \<open>\<open>x + y\<close> (Number::add).\<close>

definition js_add :: "number \<Rightarrow> number \<Rightarrow> number" where
  "js_add x y =
     (if is_NaN x \<or> is_NaN y then NaN
      else if is_inf x \<and> is_inf y then (if x = y then x else NaN)
      else if is_inf x then x
      else if is_inf y then y
      else if x = NegZero then y
      else if y = NegZero then x
      else fl (val x + val y))"

text \<open>\<open>x - y\<close> (Number::subtract adds the negation).\<close>

definition js_sub :: "number \<Rightarrow> number \<Rightarrow> number" where
  "js_sub x y = js_add x (js_neg y)"

text \<open>\<open>x * y\<close> (Number::multiply).\<close>

definition js_mul :: "number \<Rightarrow> number \<Rightarrow> number" where
  "js_mul x y =
     (if is_NaN x \<or> is_NaN y then NaN
      else if (is_inf x \<and> is_zero y) \<or> (is_zero x \<and> is_inf y) then NaN
      else if is_inf x \<or> is_inf y then (if is_neg x = is_neg y then PosInf else NegInf)
      else if is_zero x \<or> is_zero y then (if is_neg x = is_neg y then Fin 0 else NegZero)
      else fl (val x * val y))"

text \<open>\<open>Math.floor\<close>: exact on a finite value, the identity elsewhere.\<close>

fun Math_floor :: "number \<Rightarrow> number" where
  "Math_floor (Fin q) = Fin (of_int \<lfloor>q\<rfloor>)"
| "Math_floor x = x"

text \<open>
  \<open>Math.round\<close>: the nearest integer, a tie going towards \<open>+\<infinity>\<close>; a value in
  \<open>[-0.5, 0)\<close> gives the negative zero.
\<close>

fun Math_round :: "number \<Rightarrow> number" where
  "Math_round (Fin q) = (if - 1 / 2 \<le> q \<and> q < 0 then NegZero else Fin (of_int \<lfloor>q + 1 / 2\<rfloor>))"
| "Math_round x = x"

text \<open>\<open>Math.max\<close> of two numbers: NaN if either is NaN, and \<open>+0\<close> is larger than \<open>-0\<close>.\<close>

definition Math_max :: "number \<Rightarrow> number \<Rightarrow> number" where
  "Math_max x y =
     (if is_NaN x \<or> is_NaN y then NaN
      else if js_lt x y then y
      else if js_lt y x then x
      else if x = NegZero then y else x)"

text \<open>The numeric literals of the source, each the binary64 value nearest to its decimal.\<close>

definition lit_0_15 :: number where "lit_0_15 = fl (15 / 100)"
definition lit_0_2 :: number where "lit_0_2 = fl (2 / 10)"
definition lit_1_2 :: number where "lit_1_2 = fl (12 / 10)"
definition lit_1_3 :: number where "lit_1_3 = fl (13 / 10)"
definition lit_2_5 :: number where "lit_2_5 = fl (25 / 10)"

subsection \<open>JavaScript dates\<close>

text \<open>
  A \<open>Date\<close> holds a time value: NaN (an invalid date) or a whole number of
  milliseconds since the epoch, at most \<open>8.64e15\<close> in magnitude. The day and calendar
  functions are those of ECMAScript (section "Time Values and Time Range" and following).
  They work on whole numbers below \<open>2 ^ 53\<close>, where binary64 arithmetic is exact, and
  a larger intermediate result is beyond the range that \<open>TimeClip\<close> accepts: so the
  model computes them over \<open>int\<close> and keeps NaN as \<open>None\<close>.
\<close>

datatype date = InvalidDate | Date int

text \<open>
  What the function reads from its host: the clock (\<open>new Date()\<close>) and the local time
  zone adjustment \<open>LocalTZA(t, isUTC)\<close>, which is implementation-defined.
\<close>

record env =
  clock :: int
  LocalTZA :: "int \<Rightarrow> bool \<Rightarrow> int"

definition msPerDay :: int where
  "msPerDay = 86400000"

definition Day :: "int \<Rightarrow> int" where
  "Day t = t div msPerDay"

definition TimeWithinDay :: "int \<Rightarrow> int" where
  "TimeWithinDay t = t mod msPerDay"

definition DaysInYear :: "int \<Rightarrow> int" where
  "DaysInYear y =
     (if y mod 4 \<noteq> 0 then 365
      else if y mod 100 \<noteq> 0 then 366
      else if y mod 400 \<noteq> 0 then 365
      else 366)"

definition DayFromYear :: "int \<Rightarrow> int" where
  "DayFromYear y =
     365 * (y - 1970) + (y - 1969) div 4 - (y - 1901) div 100 + (y - 1601) div 400"

text \<open>
  ECMAScript defines \<open>YearFromTime t\<close> as the largest \<open>y\<close> with
  \<open>DayFromYear y \<le> Day t\<close>. It is computed here from the mean length of a year,
  which is off by at most one year; lemma \<open>YearFromTime_bounds\<close> shows that the
  result is that largest \<open>y\<close>.
\<close>

definition YearFromTime :: "int \<Rightarrow> int" where
  "YearFromTime t =
     (let d = Day t; y = 1970 + (400 * d) div 146097
      in if d < DayFromYear y then y - 1
         else if DayFromYear (y + 1) \<le> d then y + 1
         else y)"

definition InLeapYear :: "int \<Rightarrow> int" where
  "InLeapYear t = (if DaysInYear (YearFromTime t) = 366 then 1 else 0)"

definition DayWithinYear :: "int \<Rightarrow> int" where
  "DayWithinYear t = Day t - DayFromYear (YearFromTime t)"

definition MonthFromTime :: "int \<Rightarrow> int" where
  "MonthFromTime t =
     (let d = DayWithinYear t; l = InLeapYear t
      in if d < 31 then 0
         else if d < 59 + l then 1
         else if d < 90 + l then 2
         else if d < 120 + l then 3
         else if d < 151 + l then 4
         else if d < 181 + l then 5
         else if d < 212 + l then 6
         else if d < 243 + l then 7
         else if d < 273 + l then 8
         else if d < 304 + l then 9
         else if d < 334 + l then 10
         else 11)"

definition DateFromTime :: "int \<Rightarrow> int" where
  "DateFromTime t =
     (let d = DayWithinYear t; l = InLeapYear t; m = MonthFromTime t
      in if m = 0 then d + 1
         else if m = 1 then d - 30
         else if m = 2 then d - 58 - l
         else if m = 3 then d - 89 - l
         else if m = 4 then d - 119 - l
         else if m = 5 then d - 150 - l
         else if m = 6 then d - 180 - l
         else if m = 7 then d - 211 - l
         else if m = 8 then d - 242 - l
         else if m = 9 then d - 272 - l
         else if m = 10 then d - 303 - l
         else d - 333 - l)"

text \<open>The day within the year on which month \<open>mn\<close> (0 to 11) starts.\<close>

definition MonthStart :: "int \<Rightarrow> int \<Rightarrow> int" where
  "MonthStart mn l =
     (if mn = 0 then 0
      else if mn = 1 then 31
      else if mn = 2 then 59 + l
      else if mn = 3 then 90 + l
      else if mn = 4 then 120 + l
      else if mn = 5 then 151 + l
      else if mn = 6 then 181 + l
      else if mn = 7 then 212 + l
      else if mn = 8 then 243 + l
      else if mn = 9 then 273 + l
      else if mn = 10 then 304 + l
      else 334 + l)"

text \<open>\<open>ToIntegerOrInfinity\<close> of a finite number truncates towards zero.\<close>

fun ToInteger :: "number \<Rightarrow> int option" where
  "ToInteger (Fin q) = Some (if 0 \<le> q then \<lfloor>q\<rfloor> else \<lceil>q\<rceil>)"
| "ToInteger NegZero = Some 0"
| "ToInteger _ = None"

text \<open>
  \<open>MakeDay\<close>: NaN when the date is not finite; otherwise the day number of the first
  of the month plus \<open>date - 1\<close>, the month carrying into the year. ECMAScript asks
  for a time value with this year, this month and the date 1: lemma
  \<open>MakeDay_first_of_month\<close> shows that the day computed here is that one.
\<close>

definition MakeDay :: "int \<Rightarrow> int \<Rightarrow> number \<Rightarrow> int option" where
  "MakeDay year month date =
     (case ToInteger date of
        None \<Rightarrow> None
      | Some dt \<Rightarrow>
          let ym = year + month div 12;
              mn = month mod 12;
              l = (if DaysInYear ym = 366 then 1 else 0)
          in Some (DayFromYear ym + MonthStart mn l + dt - 1))"

definition MakeDate :: "int option \<Rightarrow> int \<Rightarrow> int option" where
  "MakeDate day time = (case day of None \<Rightarrow> None | Some d \<Rightarrow> Some (d * msPerDay + time))"

definition TimeClip :: "int option \<Rightarrow> date" where
  "TimeClip time =
     (case time of
        None \<Rightarrow> InvalidDate
      | Some t \<Rightarrow> if 8640000000000000 < \<bar>t\<bar> then InvalidDate else Date t)"

definition LocalTime :: "'a env_scheme \<Rightarrow> int \<Rightarrow> int" where
  "LocalTime host t = t + LocalTZA host t True"

definition UTC :: "'a env_scheme \<Rightarrow> int \<Rightarrow> int" where
  "UTC host t = t - LocalTZA host t False"

text \<open>\<open>new Date()\<close>: the current time.\<close>

definition new_Date :: "'a env_scheme \<Rightarrow> date" where
  "new_Date host = Date (clock host)"

text \<open>\<open>new Date(date)\<close>: a copy of the time value, clipped.\<close>

definition copy_Date :: "date \<Rightarrow> date" where
  "copy_Date d = (case d of InvalidDate \<Rightarrow> InvalidDate | Date t \<Rightarrow> TimeClip (Some t))"

text \<open>\<open>Date.prototype.getDate\<close>: the day of the month in local time.\<close>

definition getDate :: "'a env_scheme \<Rightarrow> date \<Rightarrow> number" where
  "getDate host d =
     (case d of
        InvalidDate \<Rightarrow> NaN
      | Date t \<Rightarrow> Fin (of_int (DateFromTime (LocalTime host t))))"

text \<open>\<open>Date.prototype.setDate\<close>, returning the date object's new value.\<close>

definition setDate :: "'a env_scheme \<Rightarrow> date \<Rightarrow> number \<Rightarrow> date" where
  "setDate host d dt =
     (case d of
        InvalidDate \<Rightarrow> InvalidDate
      | Date t0 \<Rightarrow>
          let t = LocalTime host t0;
              newDate = MakeDate (MakeDay (YearFromTime t) (MonthFromTime t) dt) (TimeWithinDay t)
          in TimeClip (map_option (UTC host) newDate))"

subsection \<open>The scheduler\<close>

text \<open>
  The fields of a stored state are typed \<open>number\<close>, and the function also accepts a
  field that is \<open>null\<close> or \<open>undefined\<close> (\<open>??\<close>, \<open>typeof\<close>): such a field is \<open>None\<close>.
\<close>

record SrsState =
  intervalDays :: "number option"
  ease :: "number option"
  reps :: "number option"

datatype SrsRating = Again | Hard | Good | Easy

record SrsResult =
  nextState :: SrsState
  dueAt :: date

definition initialSrsState :: SrsState where
  "initialSrsState = \<lparr>intervalDays = Some (Fin 0), ease = Some lit_2_5, reps = Some (Fin 0)\<rparr>"

definition addDays :: "'a env_scheme \<Rightarrow> date \<Rightarrow> number \<Rightarrow> date" where
  "addDays host date days =
     (let d = copy_Date date
      in setDate host d (js_add (getDate host d) days))"

text \<open>\<open>x ?? y\<close>.\<close>

definition nullish :: "number option \<Rightarrow> number \<Rightarrow> number" where
  "nullish x y = (case x of None \<Rightarrow> y | Some v \<Rightarrow> v)"

text \<open>The three normalised values that \<open>nextSrs\<close> starts from.\<close>

definition norm_intervalDays :: "SrsState \<Rightarrow> number" where
  "norm_intervalDays state = Math_max (Fin 0) (Math_floor (nullish (intervalDays state) (Fin 0)))"

definition norm_ease :: "SrsState \<Rightarrow> number" where
  "norm_ease state = (case ease state of Some x \<Rightarrow> x | None \<Rightarrow> lit_2_5)"

definition norm_reps :: "SrsState \<Rightarrow> number" where
  "norm_reps state = Math_max (Fin 0) (Math_floor (nullish (reps state) (Fin 0)))"

definition nextSrs :: "'a env_scheme \<Rightarrow> SrsState \<Rightarrow> SrsRating \<Rightarrow> SrsResult" where
  "nextSrs host state rating =
     (let now = new_Date host;
          intervalDays0 = norm_intervalDays state;
          ease0 = norm_ease state;
          reps0 = norm_reps state
      in if rating = Again then
           (let reps1 = Fin 0;
                intervalDays1 = Fin 1;
                ease1 = Math_max lit_1_3 (js_sub ease0 lit_0_2)
            in \<lparr>nextState = \<lparr>intervalDays = Some intervalDays1, ease = Some ease1, reps = Some reps1\<rparr>,
                dueAt = addDays host now intervalDays1\<rparr>)
         else
           (let reps1 = js_add reps0 (Fin 1);
                (intervalDays1, ease1) =
                  (if rating = Hard then
                     (if js_strict_eq intervalDays0 (Fin 0) then Fin 1
                      else Math_max (Fin 1) (Math_round (js_mul intervalDays0 lit_1_2)),
                      Math_max lit_1_3 (js_sub ease0 lit_0_15))
                   else if rating = Good then
                     (if js_strict_eq intervalDays0 (Fin 0) then Fin 1
                      else Math_max (Fin 1) (Math_round (js_mul intervalDays0 lit_2_5)),
                      ease0)
                   else
                     (if js_strict_eq intervalDays0 (Fin 0) then Fin 2
                      else Math_max (Fin 2) (Math_round (js_mul intervalDays0 (Fin 3))),
                      js_add ease0 lit_0_15))
            in \<lparr>nextState = \<lparr>intervalDays = Some intervalDays1, ease = Some ease1, reps = Some reps1\<rparr>,
                dueAt = addDays host now intervalDays1\<rparr>))"

text \<open>
  The review page stores \<open>nextState\<close> and passes it back at the next review of the
  word: a sequence of ratings, each at its own reading of the host.
\<close>

fun review_all :: "SrsState \<Rightarrow> ('a env_scheme \<times> SrsRating) list \<Rightarrow> SrsState" where
  "review_all state [] = state"
| "review_all state ((host, rating) # rs) = review_all (nextState (nextSrs host state rating)) rs"

subsection \<open>Dates in a store\<close>

text \<open>
  A \<open>Date\<close> is an object, and \<open>setDate\<close> changes it in place. Here the objects are the
  entries of a store and a reference is an index into it; every reference that the
  program holds is below the length of the store. \<open>addDays\<close> with the store made
  explicit: \<open>new Date(date)\<close> takes a new entry, \<open>setDate\<close> writes to that entry, and the
  reference to it is returned.
\<close>

definition addDays_in :: "'a env_scheme \<Rightarrow> date list \<Rightarrow> nat \<Rightarrow> number \<Rightarrow> nat \<times> date list" where
  "addDays_in host store date days =
     (let d = length store;
          store1 = store @ [copy_Date (store ! date)];
          store2 = store1[d := setDate host (store1 ! d) (js_add (getDate host (store1 ! d)) days)]
      in (d, store2))"

subsection \<open>The normalised state\<close>

text \<open>
  A stored count as the function is meant to read it: a finite value floored and not
  below 0, a missing value and \<open>-\<infinity>\<close> as 0, NaN and \<open>+\<infinity>\<close> as they are; and a stored
  state read in this way, a missing ease being 2.5.
\<close>

definition normalised_count :: "number option \<Rightarrow> number" where
  "normalised_count x =
     (case x of
        None \<Rightarrow> Fin 0
      | Some NaN \<Rightarrow> NaN
      | Some PosInf \<Rightarrow> PosInf
      | Some NegInf \<Rightarrow> Fin 0
      | Some NegZero \<Rightarrow> Fin 0
      | Some (Fin q) \<Rightarrow> Fin (of_int (max 0 \<lfloor>q\<rfloor>)))"

definition normalised :: "SrsState \<Rightarrow> SrsState" where
  "normalised state =
     \<lparr>intervalDays = Some (normalised_count (intervalDays state)),
      ease = Some (case ease state of None \<Rightarrow> Fin (5 / 2) | Some x \<Rightarrow> x),
      reps = Some (normalised_count (reps state))\<rparr>"

subsection \<open>Predicates used in the statements\<close>

text \<open>\<open>whole_from b x\<close>: the number \<open>x\<close> is a whole number, at least \<open>b\<close>.\<close>

definition whole_from :: "int \<Rightarrow> number \<Rightarrow> bool" where
  "whole_from b x = (\<exists>k. x = Fin (of_int k) \<and> b \<le> k)"

subsection \<open>Concrete hosts\<close>

text \<open>
  A host on UTC, and a host on New York time around 10 March 2024, when its clocks
  moved from 02:00 to 03:00 local time (07:00 UTC): the offset is five hours before
  and four hours after; the zone's other transitions are left out.
\<close>

definition utc_host :: "int \<Rightarrow> env" where
  "utc_host t = \<lparr>clock = t, LocalTZA = (\<lambda>t isUTC. 0)\<rparr>"

definition new_york_host :: "int \<Rightarrow> env" where
  "new_york_host t =
     \<lparr>clock = t,
      LocalTZA = (\<lambda>t isUTC.
        if isUTC then (if t < 1710054000000 then - 18000000 else - 14400000)
        else (if t < 1710039600000 then - 18000000 else - 14400000))\<rparr>"

text \<open>A host whose zone is at a fixed offset from UTC, in milliseconds.\<close>

definition fixed_host :: "int \<Rightarrow> int \<Rightarrow> env" where
  "fixed_host offset t = \<lparr>clock = t, LocalTZA = (\<lambda>t isUTC. offset)\<rparr>"

section \<open>Properties\<close>

subsection \<open>The literals\<close>

lemma lit_0_15_eq: "lit_0_15 = Fin (5404319552844595 / 36028797018963968)"
  unfolding lit_0_15_def by code_simp

lemma lit_0_2_eq: "lit_0_2 = Fin (3602879701896397 / 18014398509481984)"
  unfolding lit_0_2_def by code_simp

lemma lit_1_2_eq: "lit_1_2 = Fin (5404319552844595 / 4503599627370496)"
  unfolding lit_1_2_def by code_simp

lemma lit_1_3_eq: "lit_1_3 = Fin (5854679515581645 / 4503599627370496)"
  unfolding lit_1_3_def by code_simp

lemma lit_2_5_eq: "lit_2_5 = Fin (5 / 2)"
  unfolding lit_2_5_def by code_simp

subsection \<open>The binary exponent\<close>

lemma bitlen_pos: "0 < x \<Longrightarrow> 1 \<le> bitlen x"
  by (auto simp: bitlen_alt_def)

lemma ilog2_bounds:
  assumes "0 < q"
  shows "2 powi (ilog2 q) \<le> q \<and> q < 2 powi (ilog2 q + 1)"
proof (cases "1 \<le> q")
  case True
  define n where "n = \<lfloor>q\<rfloor>"
  define b where "b = bitlen n"
  have n: "1 \<le> n" using True by (simp add: n_def le_floor_iff)
  then have b: "1 \<le> b" unfolding b_def by (intro bitlen_pos) simp
  from bitlen_bounds [of n] n have bb: "2 ^ nat (b - 1) \<le> n" "n < 2 ^ nat b"
    by (simp_all add: b_def)
  have "(2::rat) powi (b - 1) = of_int (2 ^ nat (b - 1))"
    using b by (simp add: power_int_def)
  also have "\<dots> \<le> of_int n" using bb(1) by (simp only: of_int_le_iff)
  also have "\<dots> \<le> q" by (simp add: n_def)
  finally have lo: "2 powi (b - 1) \<le> q" .
  have "q < of_int (n + 1)" unfolding n_def by linarith
  also have "\<dots> \<le> of_int (2 ^ nat b)" using bb(2) by (simp only: of_int_le_iff)
  also have "\<dots> = (2::rat) powi b" using b by (simp add: power_int_def)
  finally have hi: "q < 2 powi b" .
  have "ilog2 q = b - 1" using True by (simp add: ilog2_def b_def n_def)
  with lo hi show ?thesis by simp
next
  case False
  define c where "c = \<lceil>1 / q\<rceil>"
  define b where "b = bitlen (c - 1)"
  have "1 < 1 / q" using False assms by (simp add: field_simps)
  then have c: "2 \<le> c" unfolding c_def by linarith
  then have b: "1 \<le> b" unfolding b_def by (intro bitlen_pos) simp
  from bitlen_bounds [of "c - 1"] c have bb: "2 ^ nat (b - 1) \<le> c - 1" "c - 1 < 2 ^ nat b"
    by (simp_all add: b_def)
  have "1 / q \<le> of_int c" unfolding c_def by linarith
  also have "\<dots> \<le> of_int (2 ^ nat b)" using bb(2) by (simp only: of_int_le_iff)
  finally have "1 / q \<le> 2 ^ nat b" by simp
  then have "1 / 2 ^ nat b \<le> q" using assms
    by (simp add: field_simps)
  moreover have "(2::rat) powi (- b) = 1 / 2 ^ nat b"
    using b by (simp add: power_int_def field_simps)
  ultimately have lo: "2 powi (- b) \<le> q" by simp
  have "of_int (2 ^ nat (b - 1)) \<le> (of_int (c - 1) :: rat)" using bb(1) by (simp only: of_int_le_iff)
  also have "\<dots> < 1 / q" unfolding c_def by linarith
  finally have "2 ^ nat (b - 1) < 1 / q" by simp
  then have "q < 1 / 2 ^ nat (b - 1)" using assms
    by (simp add: field_simps)
  moreover have "(2::rat) powi (- b + 1) = 1 / 2 ^ nat (b - 1)"
    using b by (simp add: power_int_def field_simps)
  ultimately have hi: "q < 2 powi (- b + 1)" by simp
  have "ilog2 q = - b" using False by (simp add: ilog2_def b_def c_def)
  with lo hi show ?thesis by simp
qed

lemma powi2_mono: "a \<le> b \<Longrightarrow> (2::rat) powi a \<le> 2 powi b"
  by (rule power_int_increasing) simp_all

lemma powi2_less_imp: "(2::rat) powi a < 2 powi b \<Longrightarrow> a < b"
  using powi2_mono [of b a] by (cases "a < b") auto

lemma ilog2_eqI:
  assumes "2 powi e \<le> q" "q < 2 powi (e + 1)"
  shows "ilog2 q = e"
proof -
  have q: "0 < q" using assms(1) by (rule less_le_trans [rotated]) simp
  from ilog2_bounds [OF q] have b: "2 powi (ilog2 q) \<le> q" "q < 2 powi (ilog2 q + 1)" by simp_all
  have "2 powi e < (2::rat) powi (ilog2 q + 1)" using assms(1) b(2) by simp
  then have "e < ilog2 q + 1" by (rule powi2_less_imp)
  moreover have "2 powi (ilog2 q) < (2::rat) powi (e + 1)" using assms(2) b(1) by simp
  then have "ilog2 q < e + 1" by (rule powi2_less_imp)
  ultimately show ?thesis by simp
qed

lemma ilog2_mono:
  assumes "0 < a" "a \<le> b"
  shows "ilog2 a \<le> ilog2 b"
proof -
  have b: "0 < b" using assms by simp
  have "2 powi (ilog2 a) \<le> a" using ilog2_bounds [OF assms(1)] by simp
  also have "a \<le> b" by fact
  also have "b < 2 powi (ilog2 b + 1)" using ilog2_bounds [OF b] by simp
  finally have "ilog2 a < ilog2 b + 1" by (rule powi2_less_imp)
  then show ?thesis by simp
qed

subsection \<open>Rounding to binary64\<close>

lemma round_half_even_ge: "of_int k \<le> x \<Longrightarrow> k \<le> round_half_even x"
proof -
  assume "of_int k \<le> x"
  then have "k \<le> \<lfloor>x\<rfloor>" by (simp add: le_floor_iff)
  then show ?thesis by (simp add: round_half_even_def Let_def)
qed

lemma round_half_even_of_int [simp]: "round_half_even (of_int k) = k"
  by (simp add: round_half_even_def Let_def)

lemma binade_upper: "q \<noteq> 0 \<Longrightarrow> \<bar>q\<bar> < 2 powi (binade q + 1)"
proof -
  assume "q \<noteq> 0"
  then have q: "0 < \<bar>q\<bar>" by simp
  have "\<bar>q\<bar> < 2 powi (ilog2 \<bar>q\<bar> + 1)" using ilog2_bounds [OF q] by simp
  also have "\<dots> \<le> 2 powi (binade q + 1)" by (rule powi2_mono) (simp add: binade_def)
  finally show ?thesis .
qed

lemma binade_lower: "- 1022 < binade q \<Longrightarrow> q \<noteq> 0 \<Longrightarrow> 2 powi (binade q) \<le> \<bar>q\<bar>"
proof -
  assume a: "- 1022 < binade q" and "q \<noteq> 0"
  then have q: "0 < \<bar>q\<bar>" by simp
  from a have "binade q = ilog2 \<bar>q\<bar>" by (simp add: binade_def max_def split: if_splits)
  then show ?thesis using ilog2_bounds [OF q] by simp
qed

lemma binade_mono: "0 < a \<Longrightarrow> a \<le> b \<Longrightarrow> binade a \<le> binade b"
  using ilog2_mono [of a b] by (simp add: binade_def max_def)

lemma ulp_pos [simp]: "0 < ulp q"
  by (simp add: ulp_def)

lemma ulp_nonneg [simp]: "0 \<le> ulp q"
  by (simp add: ulp_def)

lemma fl_Fin_nonzeroD:
  assumes "fl a = Fin a" "a \<noteq> 0"
  shows "a / ulp a = of_int (round_half_even (a / ulp a))"
proof -
  from assms have "of_int (round_half_even (a / ulp a)) * ulp a = a"
    by (simp add: fl_def Let_def split: if_splits)
  then show ?thesis
    by (metis nonzero_mult_div_cancel_right ulp_pos less_irrefl)
qed

lemma fl_pos_cases:
  assumes "0 < p"
  shows "fl p = PosInf \<or> (\<exists>r. 0 \<le> r \<and> fl p = Fin r)"
proof -
  have "0 \<le> p / ulp p" using assms by simp
  then have "0 \<le> round_half_even (p / ulp p)"
    using round_half_even_ge [of 0 "p / ulp p"] by simp
  then have "0 \<le> of_int (round_half_even (p / ulp p)) * ulp p"
    by simp
  with assms show ?thesis
    by (auto simp: fl_def Let_def)
qed

lemma fl_ge:
  assumes fixed: "fl a = Fin a" and a: "0 < a" and ax: "a \<le> x"
  shows "js_le (Fin a) (fl x)"
proof -
  have x: "0 < x" using a ax by simp
  define m where "m = round_half_even (x / ulp x)"
  have grid: "a / ulp a = of_int (round_half_even (a / ulp a))"
    using fl_Fin_nonzeroD [OF fixed] a by simp
  have le: "binade a \<le> binade x" using a ax by (rule binade_mono)
  have big: "a \<le> of_int m * ulp x"
  proof (cases "binade a = binade x")
    case True
    then have u: "ulp a = ulp x" by (simp add: ulp_def)
    have "a / ulp x \<le> x / ulp x" using ax by (simp add: divide_right_mono)
    then have "of_int (round_half_even (a / ulp a)) \<le> x / ulp x"
      using grid u by simp
    then have "round_half_even (a / ulp a) \<le> m"
      unfolding m_def by (rule round_half_even_ge)
    then have "(of_int (round_half_even (a / ulp a)) :: rat) \<le> of_int m" by simp
    then have "of_int (round_half_even (a / ulp a)) * ulp x \<le> of_int m * ulp x"
      by (simp add: mult_right_mono)
    moreover have "of_int (round_half_even (a / ulp a)) * ulp x = a"
      using grid u by (metis nonzero_mult_div_cancel_right ulp_pos less_irrefl times_divide_eq_left)
    ultimately show ?thesis by simp
  next
    case False
    with le have lt: "binade a < binade x" by simp
    have "- 1022 \<le> binade a" by (simp add: binade_def)
    with lt have "- 1022 < binade x" by simp
    then have lo: "2 powi (binade x) \<le> x" using binade_lower [of x] x by simp
    have "(2::rat) powi (binade x) = of_int (2 ^ 52) * ulp x"
      by (simp add: ulp_def power_int_diff)
    then have "of_int (2 ^ 52) * ulp x \<le> x" using lo by simp
    then have "of_int (2 ^ 52) \<le> x / ulp x"
      by (simp add: pos_le_divide_eq)
    then have "2 ^ 52 \<le> m" unfolding m_def by (rule round_half_even_ge)
    then have "(of_int (2 ^ 52) :: rat) \<le> of_int m" by (simp only: of_int_le_iff)
    then have "of_int (2 ^ 52) * ulp x \<le> of_int m * ulp x"
      by (simp add: mult_right_mono)
    then have "2 powi (binade x) \<le> of_int m * ulp x"
      using \<open>(2::rat) powi (binade x) = of_int (2 ^ 52) * ulp x\<close> by simp
    moreover have "a < 2 powi (binade a + 1)" using binade_upper [of a] a by simp
    moreover have "(2::rat) powi (binade a + 1) \<le> 2 powi (binade x)"
      using lt by (intro powi2_mono) simp
    ultimately show ?thesis by simp
  qed
  then have "m \<noteq> 0" using a by auto
  then show ?thesis using big x
    by (auto simp: fl_def Let_def m_def js_le_def js_lt_def)
qed

lemma fl_exact:
  assumes q: "q \<noteq> 0" and grid: "q / ulp q = of_int k" and e: "binade q \<le> 1023"
  shows "fl q = Fin q"
proof -
  have qk: "q = of_int k * ulp q"
    using grid by (metis nonzero_mult_div_cancel_right ulp_pos less_irrefl times_divide_eq_left)
  have k: "k \<noteq> 0" using q qk by auto
  have "\<not> (binade q = 1023 \<and> \<bar>k\<bar> = 2 ^ 53)"
  proof
    assume h: "binade q = 1023 \<and> \<bar>k\<bar> = 2 ^ 53"
    then have "ulp q = 2 powi 971" by (simp add: ulp_def)
    then have "\<bar>q\<bar> = of_int \<bar>k\<bar> * 2 powi 971"
      using qk by (metis abs_mult abs_of_pos of_int_abs ulp_pos)
    then have "\<bar>q\<bar> = 2 ^ 53 * 2 powi 971" using h by simp
    also have "\<dots> = 2 powi (53 + 971)" by (simp only: power_int_add_numeral power_int_numeral flip: power_int_of_nat) (simp add: power_int_add)
    finally have "\<bar>q\<bar> = 2 powi 1024" by simp
    moreover have "\<bar>q\<bar> < 2 powi 1024" using binade_upper [OF q] h by simp
    ultimately show False by simp
  qed
  then show ?thesis using q e k qk
    by (simp add: fl_def Let_def grid)
qed

lemma fl_exact_int:
  assumes "0 \<le> n" "n \<le> 2 ^ 53"
  shows "fl (of_int n) = Fin (of_int n)"
proof (cases "n = 0")
  case True
  then show ?thesis by (simp add: fl_def)
next
  case False
  define q :: rat where "q = of_int n"
  have q1: "1 \<le> q" using False assms by (simp add: q_def)
  then have q0: "q \<noteq> 0" "0 < q" "\<bar>q\<bar> = q" by simp_all
  have "2 powi 0 \<le> q" using q1 by simp
  also have "q < 2 powi (ilog2 q + 1)" using ilog2_bounds [OF q0(2)] by simp
  finally have e0: "0 \<le> ilog2 q" using powi2_less_imp [of 0 "ilog2 q + 1"] by simp
  then have be: "binade q = ilog2 q" by (simp add: binade_def q0)
  have qle: "q \<le> 2 powi 53" using assms(2) unfolding q_def
    by (metis of_int_le_iff of_int_numeral of_int_power power_int_numeral)
  have "2 powi (ilog2 q) \<le> q" using ilog2_bounds [OF q0(2)] by simp
  also have "q < 2 powi 54" using qle by (rule le_less_trans) simp
  finally have e53: "ilog2 q \<le> 53" using powi2_less_imp [of "ilog2 q" 54] by simp
  have "\<exists>k. q / ulp q = of_int k"
  proof (cases "ilog2 q = 53")
    case True
    then have "2 powi 53 \<le> q" using ilog2_bounds [OF q0(2)] by simp
    with qle have "q = 2 powi 53" by simp
    moreover have "ulp q = 2" using True be by (simp add: ulp_def)
    ultimately have "q / ulp q = of_int (2 ^ 52)" by simp
    then show ?thesis ..
  next
    case False
    with e53 have le: "ilog2 q \<le> 52" by simp
    have "ulp q = 1 / 2 ^ nat (52 - ilog2 q)"
      using le be by (simp add: ulp_def power_int_def field_simps)
    then have "q / ulp q = of_int (n * 2 ^ nat (52 - ilog2 q))"
      by (simp add: q_def)
    then show ?thesis ..
  qed
  then obtain k where "q / ulp q = of_int k" ..
  moreover have "binade q \<le> 1023" using be e53 by simp
  ultimately have "fl q = Fin q" using q0(1) by (intro fl_exact)
  then show ?thesis by (simp add: q_def)
qed

lemma fl_finite:
  assumes "0 < p" "p < 2 powi 1023"
  shows "\<exists>r. 0 \<le> r \<and> fl p = Fin r"
proof -
  have "2 powi (ilog2 p) \<le> p" using ilog2_bounds [OF assms(1)] by simp
  also note assms(2)
  finally have "ilog2 p < 1023" by (rule powi2_less_imp)
  then have "binade p \<le> 1022" using assms(1) by (simp add: binade_def)
  then have "fl p \<noteq> PosInf" using assms(1)
    by (simp add: fl_def Let_def)
  with fl_pos_cases [OF assms(1)] show ?thesis by simp
qed

subsection \<open>The operations on finite values\<close>

lemma fl_not_NaN [simp]: "\<not> is_NaN (fl q)"
  by (simp add: fl_def Let_def)

lemma Math_max_Fin [simp]: "Math_max (Fin a) (Fin b) = Fin (max a b)"
  by (auto simp: Math_max_def js_lt_def max_def)

lemma Math_max_Fin_PosInf [simp]: "Math_max (Fin a) PosInf = PosInf"
  by (simp add: Math_max_def js_lt_def)

lemma Math_max_Fin_NaN [simp]: "Math_max x NaN = NaN"
  by (simp add: Math_max_def)

lemma Math_max_zero_NegInf [simp]: "Math_max (Fin a) NegInf = Fin a"
  by (simp add: Math_max_def js_lt_def)

lemma Math_max_zero_NegZero [simp]: "Math_max (Fin 0) NegZero = Fin 0"
  by (simp add: Math_max_def js_lt_def)

lemma js_strict_eq_Fin [simp]: "js_strict_eq (Fin a) (Fin b) = (a = b)"
  by (simp add: js_strict_eq_def)

lemma js_add_Fin [simp]: "js_add (Fin a) (Fin b) = fl (a + b)"
  by (simp add: js_add_def)

lemma js_le_Fin [simp]: "js_le (Fin a) (Fin b) = (a \<le> b)"
  by (auto simp: js_le_def js_lt_def)

lemma js_le_Math_max: "\<not> is_NaN x \<Longrightarrow> js_le (Fin a) (Math_max (Fin a) x)"
  by (cases x) (auto simp: Math_max_def js_le_def js_lt_def)

lemma js_add_not_NaN: "\<not> is_NaN x \<Longrightarrow> \<not> is_NaN (js_add x (Fin b))"
  by (cases x) (auto simp: js_add_def)

text \<open>What the first three lines of the function make of a stored count.\<close>

lemma normalise_count:
  "Math_max (Fin 0) (Math_floor (nullish x (Fin 0))) =
     (case x of
        None \<Rightarrow> Fin 0
      | Some NaN \<Rightarrow> NaN
      | Some PosInf \<Rightarrow> PosInf
      | Some NegInf \<Rightarrow> Fin 0
      | Some NegZero \<Rightarrow> Fin 0
      | Some (Fin q) \<Rightarrow> Fin (of_int (max 0 \<lfloor>q\<rfloor>)))"
  by (auto simp: nullish_def max_def split: option.splits number.splits)

lemma norm_ease_Some [simp]: "norm_ease \<lparr>intervalDays = i, ease = Some x, reps = r\<rparr> = x"
  by (simp add: norm_ease_def)

lemma lit_1_3_fixed: "fl (5854679515581645 / 4503599627370496) = Fin (5854679515581645 / 4503599627370496)"
  by code_simp

lemma ease_floor_step:
  assumes "js_le lit_1_3 (norm_ease state)"
  shows "js_le lit_1_3 (norm_ease (nextState (nextSrs host state rating)))"
proof -
  define e where "e = norm_ease state"
  have e: "js_le lit_1_3 e" using assms by (simp add: e_def)
  then have nn: "\<not> is_NaN e" by (simp add: js_le_def)
  have sub: "\<not> is_NaN (js_sub e c)" if "c = lit_0_2 \<or> c = lit_0_15" for c
    using that nn js_add_not_NaN [of e] by (auto simp: js_sub_def lit_0_2_eq lit_0_15_eq)
  show ?thesis
  proof (cases rating)
    case Again
    then show ?thesis using sub [of lit_0_2]
      by (simp add: nextSrs_def Let_def lit_1_3_eq js_le_Math_max flip: e_def)
  next
    case Hard
    then show ?thesis using sub [of lit_0_15]
      by (simp add: nextSrs_def Let_def lit_1_3_eq js_le_Math_max flip: e_def)
  next
    case Good
    then show ?thesis using e
      by (simp add: nextSrs_def Let_def flip: e_def)
  next
    case Easy
    have "js_le lit_1_3 (js_add e lit_0_15)"
    proof (cases e)
      case (Fin q)
      with e have "5854679515581645 / 4503599627370496 \<le> q" by (simp add: lit_1_3_eq)
      then have "5854679515581645 / 4503599627370496 \<le> q + 5404319552844595 / 36028797018963968"
        by simp
      from fl_ge [OF lit_1_3_fixed _ this] show ?thesis
        by (simp add: Fin lit_1_3_eq lit_0_15_eq)
    qed (use e in \<open>simp_all add: js_le_def js_lt_def js_add_def lit_1_3_eq lit_0_15_eq\<close>)
    with Easy show ?thesis
      by (simp add: nextSrs_def Let_def flip: e_def)
  qed
qed

lemma ease_floor_review_all:
  "js_le lit_1_3 (norm_ease state) \<Longrightarrow> js_le lit_1_3 (norm_ease (review_all state rs))"
proof (induction rs arbitrary: state)
  case Nil
  then show ?case by simp
next
  case (Cons hr rs)
  obtain host rating where hr: "hr = (host, rating)" by (cases hr)
  from Cons.prems have "js_le lit_1_3 (norm_ease (nextState (nextSrs host state rating)))"
    by (rule ease_floor_step)
  then show ?case unfolding hr by (simp add: Cons.IH)
qed

lemma ease_floor_initial: "js_le lit_1_3 (norm_ease initialSrsState)"
  by (simp add: initialSrsState_def norm_ease_def lit_1_3_eq lit_2_5_eq)

subsection \<open>The repetition count\<close>

lemma norm_reps_int:
  "reps state = Some (Fin (of_int n)) \<Longrightarrow> 0 \<le> n \<Longrightarrow> norm_reps state = Fin (of_int n)"
  by (simp add: norm_reps_def normalise_count)

lemma norm_intervalDays_int:
  "intervalDays state = Some (Fin (of_int n)) \<Longrightarrow> 0 \<le> n \<Longrightarrow> norm_intervalDays state = Fin (of_int n)"
  by (simp add: norm_intervalDays_def normalise_count)

lemma reps_of_nextSrs:
  "reps (nextState (nextSrs host state rating)) =
     Some (if rating = Again then Fin 0 else js_add (norm_reps state) (Fin 1))"
  by (simp add: nextSrs_def Let_def)

lemma reps_plus_one:
  assumes "reps state = Some (Fin (of_int n))" "0 \<le> n" "n < 2 ^ 53" "rating \<noteq> Again"
  shows "reps (nextState (nextSrs host state rating)) = Some (Fin (of_int (n + 1)))"
proof -
  have "fl (of_int (n + 1)) = Fin (of_int (n + 1))"
    using assms(2,3) by (intro fl_exact_int) simp_all
  then show ?thesis
    using assms by (simp add: reps_of_nextSrs norm_reps_int)
qed

lemma reps_not_lower:
  assumes "reps state = Some (Fin (of_int n))" "0 \<le> n" "is_double (Fin (of_int n))"
    and "rating \<noteq> Again"
  shows "\<exists>r. reps (nextState (nextSrs host state rating)) = Some r \<and> js_le (Fin (of_int n)) r"
proof (cases "n = 0")
  case True
  have "fl 1 = Fin 1" using fl_exact_int [of 1] by simp
  then show ?thesis using assms True
    by (simp add: reps_of_nextSrs norm_reps_int)
next
  case False
  with assms(2) have pos: "0 < (of_int n :: rat)" by simp
  have "fl (of_int n) = Fin (of_int n)" using assms(3) by (simp add: is_double_def)
  from fl_ge [OF this pos, of "of_int n + 1"]
  have "js_le (Fin (of_int n)) (fl (of_int n + 1))" by simp
  then show ?thesis using assms
    by (simp add: reps_of_nextSrs norm_reps_int)
qed

subsection \<open>The interval\<close>

lemma intervalDays_of_nextSrs:
  "intervalDays (nextState (nextSrs host state rating)) =
     Some (if rating = Again then Fin 1
           else if rating = Hard then
             (if js_strict_eq (norm_intervalDays state) (Fin 0) then Fin 1
              else Math_max (Fin 1) (Math_round (js_mul (norm_intervalDays state) lit_1_2)))
           else if rating = Good then
             (if js_strict_eq (norm_intervalDays state) (Fin 0) then Fin 1
              else Math_max (Fin 1) (Math_round (js_mul (norm_intervalDays state) lit_2_5)))
           else
             (if js_strict_eq (norm_intervalDays state) (Fin 0) then Fin 2
              else Math_max (Fin 2) (Math_round (js_mul (norm_intervalDays state) (Fin 3)))))"
  by (simp add: nextSrs_def Let_def)

lemma js_mul_Fin_pos: "a \<noteq> 0 \<Longrightarrow> c \<noteq> 0 \<Longrightarrow> js_mul (Fin a) (Fin c) = fl (a * c)"
  by (simp add: js_mul_def)

lemma js_mul_PosInf_pos: "0 < c \<Longrightarrow> js_mul PosInf (Fin c) = PosInf"
  by (simp add: js_mul_def)

lemma round_max_Fin:
  "0 \<le> r \<Longrightarrow> Math_max (Fin (of_int b)) (Math_round (Fin r)) = Fin (of_int (max b \<lfloor>r + 1 / 2\<rfloor>))"
  by (simp add: max_def)

lemma whole_from_of_int [simp]: "whole_from b (Fin (of_int k)) = (b \<le> k)"
  by (auto simp: whole_from_def)

lemma whole_from_0 [simp]: "whole_from b (Fin 0) = (b \<le> 0)"
  using whole_from_of_int [of b 0] by simp

lemma whole_from_1 [simp]: "whole_from b (Fin 1) = (b \<le> 1)"
  using whole_from_of_int [of b 1] by simp

lemma whole_from_2 [simp]: "whole_from b (Fin 2) = (b \<le> 2)"
  using whole_from_of_int [of b 2] by simp

lemma grow_cases:
  assumes "0 < c" "0 < j"
  shows "Math_max (Fin (of_int b)) (Math_round (js_mul (Fin (of_int j)) (Fin c))) = PosInf \<or>
    whole_from b (Math_max (Fin (of_int b)) (Math_round (js_mul (Fin (of_int j)) (Fin c))))"
proof -
  have p: "0 < of_int j * c" using assms by simp
  have m: "js_mul (Fin (of_int j)) (Fin c) = fl (of_int j * c)"
    using assms by (intro js_mul_Fin_pos) simp_all
  from fl_pos_cases [OF p] show ?thesis
  proof
    assume "fl (of_int j * c) = PosInf"
    then show ?thesis by (simp add: m)
  next
    assume "\<exists>r. 0 \<le> r \<and> fl (of_int j * c) = Fin r"
    then obtain r where r: "0 \<le> r" "fl (of_int j * c) = Fin r" by blast
    have "Math_max (Fin (of_int b)) (Math_round (Fin r)) = Fin (of_int (max b \<lfloor>r + 1 / 2\<rfloor>))"
      using r(1) by (rule round_max_Fin)
    then show ?thesis by (simp add: m r(2))
  qed
qed

lemma grow_finite:
  assumes "0 < c" "0 < j" "of_int j * c < 2 powi 1023"
  shows "whole_from b (Math_max (Fin (of_int b)) (Math_round (js_mul (Fin (of_int j)) (Fin c))))"
proof -
  have p: "0 < of_int j * c" using assms by simp
  have m: "js_mul (Fin (of_int j)) (Fin c) = fl (of_int j * c)"
    using assms by (intro js_mul_Fin_pos) simp_all
  from fl_finite [OF p assms(3)] obtain r where r: "0 \<le> r" "fl (of_int j * c) = Fin r" by blast
  have "Math_max (Fin (of_int b)) (Math_round (Fin r)) = Fin (of_int (max b \<lfloor>r + 1 / 2\<rfloor>))"
    using r(1) by (rule round_max_Fin)
  then show ?thesis by (simp add: m r(2))
qed

text \<open>The normalised interval of a state whose stored interval is not NaN.\<close>

lemma norm_intervalDays_cases:
  assumes "intervalDays state \<noteq> Some NaN"
  shows "norm_intervalDays state = PosInf \<or> whole_from 0 (norm_intervalDays state)"
proof (cases "intervalDays state")
  case None
  then show ?thesis
    by (simp add: norm_intervalDays_def normalise_count)
next
  case (Some x)
  then show ?thesis using assms
    by (cases x) (simp_all add: norm_intervalDays_def normalise_count)
qed

lemma interval_whole_or_inf:
  assumes "intervalDays state \<noteq> Some NaN"
  shows "intervalDays (nextState (nextSrs host state rating)) = Some PosInf \<or>
    (\<exists>x. intervalDays (nextState (nextSrs host state rating)) = Some x \<and>
       whole_from (if rating = Easy then 2 else 1) x)"
proof -
  from norm_intervalDays_cases [OF assms] show ?thesis
  proof
    assume inf: "norm_intervalDays state = PosInf"
    show ?thesis
      by (cases rating)
        (simp_all add: intervalDays_of_nextSrs inf js_strict_eq_def js_mul_PosInf_pos
          lit_1_2_eq lit_2_5_eq)
  next
    assume "whole_from 0 (norm_intervalDays state)"
    then obtain j where j: "0 \<le> j" "norm_intervalDays state = Fin (of_int j)"
      by (auto simp: whole_from_def)
    show ?thesis
    proof (cases "j = 0")
      case True
      then show ?thesis
        by (cases rating) (simp_all add: intervalDays_of_nextSrs j)
    next
      case False
      with j have pos: "0 < j" by simp
      show ?thesis
      proof (cases rating)
        case Again
        then show ?thesis by (simp add: intervalDays_of_nextSrs)
      next
        case Hard
        from grow_cases [OF _ pos, of "5404319552844595 / 4503599627370496" 1]
        show ?thesis using Hard False
          by (simp add: intervalDays_of_nextSrs j lit_1_2_eq)
      next
        case Good
        from grow_cases [OF _ pos, of "5 / 2" 1]
        show ?thesis using Good False
          by (simp add: intervalDays_of_nextSrs j lit_2_5_eq)
      next
        case Easy
        from grow_cases [OF _ pos, of 3 2]
        show ?thesis using Easy False
          by (simp add: intervalDays_of_nextSrs j)
      qed
    qed
  qed
qed

lemma norm_intervalDays_bounded:
  assumes "intervalDays state = None \<or>
    (\<exists>x. intervalDays state = Some x \<and> js_lt x (Fin (2 powi 1021)))"
  shows "\<exists>j. 0 \<le> j \<and> norm_intervalDays state = Fin (of_int j) \<and> of_int j < (2::rat) powi 1021"
proof (cases "intervalDays state")
  case None
  then have "norm_intervalDays state = Fin (of_int 0)"
    by (simp add: norm_intervalDays_def normalise_count)
  moreover have "of_int 0 < (2::rat) powi 1021" by simp
  ultimately show ?thesis by blast
next
  case (Some x)
  with assms have lt: "js_lt x (Fin (2 powi 1021))" by simp
  have zero: "of_int 0 < (2::rat) powi 1021" by simp
  show ?thesis
  proof (cases x)
    case (Fin q)
    with lt have q: "q < 2 powi 1021" by (simp add: js_lt_def)
    have "of_int \<lfloor>q\<rfloor> \<le> q" by simp
    from this q have "of_int \<lfloor>q\<rfloor> < (2::rat) powi 1021" by (rule le_less_trans)
    with zero have "of_int (max 0 \<lfloor>q\<rfloor>) < (2::rat) powi 1021"
      by (cases "0 \<le> \<lfloor>q\<rfloor>") (simp_all only: max_def if_True if_False)
    moreover have "norm_intervalDays state = Fin (of_int (max 0 \<lfloor>q\<rfloor>))"
      using Some Fin by (simp add: norm_intervalDays_def normalise_count)
    moreover have "0 \<le> max 0 \<lfloor>q\<rfloor>" by simp
    ultimately show ?thesis by blast
  next
    case NegInf
    then have "norm_intervalDays state = Fin (of_int 0)"
      using Some by (simp add: norm_intervalDays_def normalise_count)
    with zero show ?thesis by blast
  next
    case NegZero
    then have "norm_intervalDays state = Fin (of_int 0)"
      using Some by (simp add: norm_intervalDays_def normalise_count)
    with zero show ?thesis by blast
  qed (use lt in \<open>simp_all add: js_lt_def\<close>)
qed

lemma interval_whole:
  assumes "intervalDays state = None \<or>
    (\<exists>x. intervalDays state = Some x \<and> js_lt x (Fin (2 powi 1021)))"
  shows "\<exists>x. intervalDays (nextState (nextSrs host state rating)) = Some x \<and>
       whole_from (if rating = Easy then 2 else 1) x"
proof -
  from norm_intervalDays_bounded [OF assms]
  obtain j where j: "0 \<le> j" "norm_intervalDays state = Fin (of_int j)"
    "of_int j < (2::rat) powi 1021" by blast
  show ?thesis
  proof (cases "j = 0")
    case True
    then show ?thesis
      by (cases rating) (simp_all add: intervalDays_of_nextSrs j)
  next
    case False
    with j have pos: "0 < j" by simp
    have four: "4 * (2::rat) powi 1021 = 2 powi 1023"
      by (simp add: power_int_add [of 2 2 1021, simplified])
    have small: "of_int j * c < 2 powi 1023" if "0 < c" "c \<le> 3" for c :: rat
    proof -
      have "of_int j * c \<le> of_int j * 3" using that pos by simp
      also have "\<dots> < 4 * 2 powi 1021" using j(3) by simp
      finally show ?thesis by (simp only: four)
    qed
    show ?thesis
    proof (cases rating)
      case Again
      then show ?thesis by (simp add: intervalDays_of_nextSrs)
    next
      case Hard
      from grow_finite [OF _ pos small, of "5404319552844595 / 4503599627370496" 1]
      show ?thesis using Hard False
        by (simp add: intervalDays_of_nextSrs j lit_1_2_eq)
    next
      case Good
      from grow_finite [OF _ pos small, of "5 / 2" 1]
      show ?thesis using Good False
        by (simp add: intervalDays_of_nextSrs j lit_2_5_eq)
    next
      case Easy
      from grow_finite [OF _ pos small, of 3 2]
      show ?thesis using Easy False
        by (simp add: intervalDays_of_nextSrs j)
    qed
  qed
qed

subsection \<open>The calendar\<close>

lemma div_bounds:
  assumes "0 < (d::int)"
  shows "d * (x div d) \<le> x" and "x < d * (x div d) + d"
  using pos_mod_bound [OF assms, of x] pos_mod_sign [OF assms, of x] mult_div_mod_eq [of d x]
  by linarith+

lemma DayFromYear_estimate:
  "400 * DayFromYear y \<le> 146097 * (y - 1970) + 589"
  "146097 * (y - 1970) - 506 \<le> 400 * DayFromYear y"
proof -
  define a b c where "a = (y - 1969) div 4" and "b = (y - 1901) div 100" and "c = (y - 1601) div 400"
  have d: "4 * a \<le> y - 1969" "y - 1969 < 4 * a + 4"
    "100 * b \<le> y - 1901" "y - 1901 < 100 * b + 100"
    "400 * c \<le> y - 1601" "y - 1601 < 400 * c + 400"
    unfolding a_def b_def c_def by (simp_all add: div_bounds)
  have e: "DayFromYear y = 365 * (y - 1970) + a - b + c"
    by (simp add: DayFromYear_def a_def b_def c_def)
  have u: "400 * a \<le> 100 * (y - 1969)" "4 * (y - 2000) \<le> 400 * b" "400 * c \<le> y - 1601"
    using d by simp_all
  have l: "100 * (y - 1972) \<le> 400 * a" "400 * b \<le> 4 * (y - 1901)" "y - 2000 \<le> 400 * c"
    using d by simp_all
  show "400 * DayFromYear y \<le> 146097 * (y - 1970) + 589"
    unfolding e using u by simp
  show "146097 * (y - 1970) - 506 \<le> 400 * DayFromYear y"
    unfolding e using l by simp
qed

lemma div_succ:
  assumes "0 < (d::int)"
  shows "(x + 1) div d = (if (x + 1) mod d = 0 then x div d + 1 else x div d)"
proof -
  define q r where "q = x div d" and "r = x mod d"
  have x: "x = d * q + r" "0 \<le> r" "r < d"
    using assms by (simp_all add: q_def r_def)
  show ?thesis
  proof (cases "r + 1 = d")
    case True
    then have eq: "x + 1 = d * (q + 1) + 0" using x(1) by (simp add: algebra_simps)
    have "(x + 1) div d = q + 1" using eq assms by (intro int_div_pos_eq [of _ _ _ 0]) simp_all
    moreover have "(x + 1) mod d = 0" using eq assms by (intro int_mod_pos_eq [of _ _ "q + 1"]) simp_all
    ultimately show ?thesis by (simp add: q_def)
  next
    case False
    then have r: "0 \<le> r + 1" "r + 1 < d" using x by simp_all
    have eq: "x + 1 = d * q + (r + 1)" using x(1) by simp
    have "(x + 1) div d = q" using eq r by (intro int_div_pos_eq [of _ _ _ "r + 1"]) simp_all
    moreover have "(x + 1) mod d = r + 1" using eq r by (intro int_mod_pos_eq [of _ _ q]) simp_all
    ultimately show ?thesis using x(2) by (simp add: q_def)
  qed
qed

lemma mod_shift4: "((y::int) - 1968) mod 4 = y mod 4"
  using mod_mult_self1 [of "y - 1968" 492 4] by simp

lemma mod_shift100: "((y::int) - 1900) mod 100 = y mod 100"
  using mod_mult_self1 [of "y - 1900" 19 100] by simp

lemma mod_shift400: "((y::int) - 1600) mod 400 = y mod 400"
  using mod_mult_self1 [of "y - 1600" 4 400] by simp

lemma mod_100_4: "(y::int) mod 100 = 0 \<Longrightarrow> y mod 4 = 0"
  using mod_mod_cancel [of 4 100 y] by simp

lemma mod_400_100: "(y::int) mod 400 = 0 \<Longrightarrow> y mod 100 = 0"
  using mod_mod_cancel [of 100 400 y] by simp

lemma DayFromYear_step: "DayFromYear (y + 1) = DayFromYear y + DaysInYear y"
proof -
  have a: "(y + 1 - 1969) div 4 = (if y mod 4 = 0 then (y - 1969) div 4 + 1 else (y - 1969) div 4)"
    using div_succ [of 4 "y - 1969"] mod_shift4 [of y] by (simp add: algebra_simps)
  have b: "(y + 1 - 1901) div 100 = (if y mod 100 = 0 then (y - 1901) div 100 + 1 else (y - 1901) div 100)"
    using div_succ [of 100 "y - 1901"] mod_shift100 [of y] by (simp add: algebra_simps)
  have c: "(y + 1 - 1601) div 400 = (if y mod 400 = 0 then (y - 1601) div 400 + 1 else (y - 1601) div 400)"
    using div_succ [of 400 "y - 1601"] mod_shift400 [of y] by (simp add: algebra_simps)
  show ?thesis
    unfolding DayFromYear_def DaysInYear_def a b c
    using mod_100_4 [of y] mod_400_100 [of y] by auto
qed

lemma YearFromTime_bounds:
  "DayFromYear (YearFromTime t) \<le> Day t \<and> Day t < DayFromYear (YearFromTime t + 1)"
proof -
  define d where "d = Day t"
  define z where "z = (400 * d) div 146097"
  have z: "146097 * z \<le> 400 * d" "400 * d < 146097 * z + 146097"
    unfolding z_def by (simp_all add: div_bounds)
  have Y: "YearFromTime t =
      (if d < DayFromYear (1970 + z) then 1970 + z - 1
       else if DayFromYear (1970 + z + 1) \<le> d then 1970 + z + 1
       else 1970 + z)"
    by (simp add: YearFromTime_def Let_def d_def z_def)
  have lo: "DayFromYear (1970 + z - 1) \<le> d"
  proof -
    have "400 * DayFromYear (1970 + z - 1) \<le> 146097 * (z - 1) + 589"
      using DayFromYear_estimate(1) [of "1970 + z - 1"] by simp
    with z(1) have "400 * DayFromYear (1970 + z - 1) \<le> 400 * d" by simp
    then show ?thesis by simp
  qed
  have hi: "d < DayFromYear (1970 + z + 1 + 1)"
  proof -
    have "146097 * (z + 2) - 506 \<le> 400 * DayFromYear (1970 + z + 1 + 1)"
      using DayFromYear_estimate(2) [of "1970 + z + 1 + 1"] by simp
    with z(2) have "400 * d < 400 * DayFromYear (1970 + z + 1 + 1)" by simp
    then show ?thesis by simp
  qed
  show ?thesis
    unfolding Y d_def [symmetric] using lo hi by simp
qed

lemma DayWithinYear_bounds:
  "0 \<le> DayWithinYear t \<and> DayWithinYear t < 365 + InLeapYear t"
proof -
  have "DayFromYear (YearFromTime t + 1) = DayFromYear (YearFromTime t) + DaysInYear (YearFromTime t)"
    by (rule DayFromYear_step)
  moreover have "DaysInYear (YearFromTime t) = 365 + InLeapYear t"
    by (simp add: InLeapYear_def DaysInYear_def)
  ultimately show ?thesis
    using YearFromTime_bounds [of t] by (simp add: DayWithinYear_def)
qed

lemma InLeapYear_cases: "InLeapYear t = 0 \<or> InLeapYear t = 1"
  by (simp add: InLeapYear_def)

lemma MonthFromTime_range: "0 \<le> MonthFromTime t \<and> MonthFromTime t \<le> 11"
  by (simp add: MonthFromTime_def Let_def)

lemma DateFromTime_MonthStart:
  "DateFromTime t = DayWithinYear t - MonthStart (MonthFromTime t) (InLeapYear t) + 1"
  by (simp add: DateFromTime_def MonthStart_def Let_def)

lemma DateFromTime_range: "1 \<le> DateFromTime t \<and> DateFromTime t \<le> 31"
  using DayWithinYear_bounds [of t] InLeapYear_cases [of t]
  unfolding DateFromTime_MonthStart
  by (auto simp: MonthFromTime_def MonthStart_def Let_def)

lemma DayFromYear_strict_mono:
  assumes "y < z"
  shows "DayFromYear y < DayFromYear z"
proof -
  have "400 * DayFromYear y \<le> 146097 * (y - 1970) + 589"
    by (rule DayFromYear_estimate(1))
  moreover have "146097 * (z - 1970) - 506 \<le> 400 * DayFromYear z"
    by (rule DayFromYear_estimate(2))
  moreover have "146097 * (y - 1970) + 146097 \<le> 146097 * (z - 1970)" using assms by simp
  ultimately have "400 * DayFromYear y < 400 * DayFromYear z" by linarith
  then show ?thesis by simp
qed

lemma YearFromTime_unique:
  assumes "DayFromYear y \<le> Day t" "Day t < DayFromYear (y + 1)"
  shows "YearFromTime t = y"
proof (rule ccontr)
  assume ne: "YearFromTime t \<noteq> y"
  have b: "DayFromYear (YearFromTime t) \<le> Day t" "Day t < DayFromYear (YearFromTime t + 1)"
    using YearFromTime_bounds [of t] by simp_all
  show False
  proof (cases "YearFromTime t < y")
    case True
    then have "DayFromYear (YearFromTime t + 1) \<le> DayFromYear y"
      using DayFromYear_strict_mono [of "YearFromTime t + 1" y]
      by (cases "YearFromTime t + 1 = y") simp_all
    with b(2) assms(1) show False by simp
  next
    case False
    with ne have "y < YearFromTime t" by simp
    then have "DayFromYear (y + 1) \<le> DayFromYear (YearFromTime t)"
      using DayFromYear_strict_mono [of "y + 1" "YearFromTime t"]
      by (cases "y + 1 = YearFromTime t") simp_all
    with b(1) assms(2) show False by simp
  qed
qed

text \<open>
  The day that \<open>MakeDay\<close> starts from is the first of the month: the time value that
  ECMAScript asks for, with this year, this month and the date 1.
\<close>

lemma MakeDay_first_of_month:
  assumes "0 \<le> mn" "mn \<le> 11"
    and "t = (DayFromYear y + MonthStart mn (if DaysInYear y = 366 then 1 else 0)) * msPerDay"
  shows "YearFromTime t = y \<and> MonthFromTime t = mn \<and> DateFromTime t = 1"
proof -
  define l :: int where "l = (if DaysInYear y = 366 then 1 else 0)"
  have day: "Day t = DayFromYear y + MonthStart mn l"
    unfolding assms(3) l_def by (simp add: Day_def msPerDay_def)
  have ms: "0 \<le> MonthStart mn l" "MonthStart mn l < DaysInYear y"
    using assms(1,2) by (auto simp: MonthStart_def l_def DaysInYear_def)
  have year: "YearFromTime t = y"
    using ms by (intro YearFromTime_unique) (simp_all add: day DayFromYear_step)
  have leap: "InLeapYear t = l" by (simp add: InLeapYear_def year l_def)
  have within: "DayWithinYear t = MonthStart mn l" by (simp add: DayWithinYear_def year day)
  have l01: "l = 0 \<or> l = 1" by (simp add: l_def)
  have "mn = 0 \<or> mn = 1 \<or> mn = 2 \<or> mn = 3 \<or> mn = 4 \<or> mn = 5 \<or> mn = 6 \<or> mn = 7 \<or>
      mn = 8 \<or> mn = 9 \<or> mn = 10 \<or> mn = 11"
    using assms(1,2) by presburger
  then have month: "MonthFromTime t = mn"
    using l01 unfolding MonthFromTime_def Let_def within leap
    by (elim disjE) (simp_all add: MonthStart_def)
  have "DateFromTime t = 1"
    by (simp add: DateFromTime_MonthStart within leap month)
  with year month show ?thesis by simp
qed

subsection \<open>Adding days to a date\<close>

lemma ToInteger_of_int [simp]: "ToInteger (Fin (of_int j)) = Some j"
  by simp

lemma MakeDay_from_date:
  "MakeDay (YearFromTime t) (MonthFromTime t) (Fin (of_int (DateFromTime t + k))) = Some (Day t + k)"
proof -
  have m: "MonthFromTime t div 12 = 0" "MonthFromTime t mod 12 = MonthFromTime t"
    using MonthFromTime_range [of t] by simp_all
  have l: "(if DaysInYear (YearFromTime t) = 366 then 1 else 0) = InLeapYear t"
    by (simp add: InLeapYear_def)
  show ?thesis
    unfolding MakeDay_def ToInteger_of_int
    by (simp add: Let_def m l DateFromTime_MonthStart DayWithinYear_def)
qed

lemma MakeDate_day_time: "MakeDate (Some (Day t + k)) (TimeWithinDay t) = Some (t + k * msPerDay)"
proof -
  have "Day t * msPerDay + TimeWithinDay t = t"
    by (simp add: Day_def TimeWithinDay_def)
  then show ?thesis
    by (simp add: MakeDate_def algebra_simps)
qed

lemma addDays_whole:
  assumes "\<bar>t0\<bar> \<le> 8640000000000000" "0 \<le> k" "k \<le> 2 ^ 52"
  shows "addDays host (Date t0) (Fin (of_int k)) =
    TimeClip (Some (UTC host (LocalTime host t0 + k * msPerDay)))"
proof -
  define t where "t = LocalTime host t0"
  have c: "copy_Date (Date t0) = Date t0"
    using assms(1) by (simp add: copy_Date_def TimeClip_def)
  have "0 \<le> DateFromTime t + k" "DateFromTime t + k \<le> 2 ^ 53"
    using DateFromTime_range [of t] assms(2,3) by simp_all
  then have "fl (of_int (DateFromTime t + k)) = Fin (of_int (DateFromTime t + k))"
    by (rule fl_exact_int)
  then have s: "js_add (getDate host (Date t0)) (Fin (of_int k)) = Fin (of_int (DateFromTime t + k))"
    by (simp add: getDate_def t_def)
  show ?thesis
    unfolding addDays_def Let_def c s
    by (simp add: setDate_def Let_def MakeDay_from_date [unfolded of_int_add] MakeDate_day_time
        flip: t_def)
qed

lemma Day_add_days: "Day (t + k * msPerDay) = Day t + k"
  by (simp add: Day_def msPerDay_def)

lemma TimeWithinDay_add_days: "TimeWithinDay (t + k * msPerDay) = TimeWithinDay t"
  by (simp add: TimeWithinDay_def)

lemma dueAt_of_nextSrs:
  "intervalDays (nextState (nextSrs host state rating)) = Some x \<Longrightarrow>
   dueAt (nextSrs host state rating) = addDays host (Date (clock host)) x"
  by (auto simp: nextSrs_def Let_def new_Date_def split: if_splits)

lemma dueAt_calendar:
  assumes "\<bar>clock host\<bar> \<le> 8640000000000000"
    and "intervalDays (nextState (nextSrs host state rating)) = Some (Fin (of_int k))"
    and "0 \<le> k" "k \<le> 2 ^ 52"
    and "due = UTC host (LocalTime host (clock host) + k * msPerDay)"
    and "\<bar>due\<bar> \<le> 8640000000000000"
    and "LocalTime host due = LocalTime host (clock host) + k * msPerDay"
  shows "dueAt (nextSrs host state rating) = Date due \<and>
    Day (LocalTime host due) = Day (LocalTime host (clock host)) + k \<and>
    TimeWithinDay (LocalTime host due) = TimeWithinDay (LocalTime host (clock host))"
proof -
  have "dueAt (nextSrs host state rating) = addDays host (Date (clock host)) (Fin (of_int k))"
    using assms(2) by (rule dueAt_of_nextSrs)
  also have "\<dots> = TimeClip (Some due)"
    unfolding assms(5) using assms(1,3,4) by (rule addDays_whole)
  also have "\<dots> = Date due" using assms(6) by (simp add: TimeClip_def)
  finally show ?thesis
    by (simp add: assms(7) Day_add_days TimeWithinDay_add_days)
qed

subsection \<open>The error of a rounding\<close>

text \<open>
  A rounding is off by at most half the spacing of the binary64 values around it.
\<close>

lemma ulp_nonzero [simp]: "ulp q \<noteq> 0"
  by (simp add: ulp_def)

lemma round_half_even_error: "\<bar>of_int (round_half_even y) - y\<bar> \<le> 1 / 2"
proof -
  have "of_int \<lfloor>y\<rfloor> \<le> y" "y < of_int \<lfloor>y\<rfloor> + 1" by linarith+
  then show ?thesis
    by (auto simp: round_half_even_def Let_def abs_le_iff)
qed

lemma fl_error:
  assumes "0 < x" "x < 2 powi 1023"
  shows "\<exists>r. fl x = Fin r \<and> \<bar>r - x\<bar> \<le> ulp x / 2"
proof -
  define m where "m = round_half_even (x / ulp x)"
  have "2 powi (ilog2 x) \<le> x" using ilog2_bounds [OF assms(1)] by simp
  also note assms(2)
  finally have "ilog2 x < 1023" by (rule powi2_less_imp)
  then have e: "binade x \<le> 1022" using assms(1) by (simp add: binade_def)
  have "\<bar>of_int m - x / ulp x\<bar> \<le> 1 / 2"
    unfolding m_def by (rule round_half_even_error)
  then have "\<bar>of_int m - x / ulp x\<bar> * ulp x \<le> 1 / 2 * ulp x"
    by (rule mult_right_mono) simp
  moreover have "\<bar>of_int m - x / ulp x\<bar> * ulp x = \<bar>of_int m * ulp x - x\<bar>"
  proof -
    have "\<bar>of_int m - x / ulp x\<bar> * ulp x = \<bar>(of_int m - x / ulp x) * ulp x\<bar>"
      by (simp add: abs_mult)
    also have "(of_int m - x / ulp x) * ulp x = of_int m * ulp x - x"
      by (simp add: left_diff_distrib)
    finally show ?thesis .
  qed
  ultimately have err: "\<bar>of_int m * ulp x - x\<bar> \<le> ulp x / 2" by simp
  have "fl x = Fin (of_int m * ulp x)"
    using assms(1) e by (auto simp: fl_def Let_def m_def)
  with err show ?thesis by blast
qed

text \<open>The literal \<open>1.2\<close> is \<open>6/5\<close> less \<open>1 / (5 * 2 ^ 52)\<close>.\<close>

lemma lit_1_2_gap:
  "(5404319552844595 / 4503599627370496 :: rat) = 6 / 5 - 1 / (5 * 2 ^ 52)"
  by simp

lemma ulp_le:
  assumes "0 < x" "x < 2 powi (n + 1)" "- 1022 \<le> n"
  shows "ulp x \<le> 2 powi (n - 52)"
proof -
  have "2 powi (ilog2 x) \<le> x" using ilog2_bounds [OF assms(1)] by simp
  also note assms(2)
  finally have "ilog2 x < n + 1" by (rule powi2_less_imp)
  then have "binade x \<le> n" using assms(1,3) by (simp add: binade_def)
  then show ?thesis unfolding ulp_def by (intro powi2_mono) simp
qed

text \<open>Twelve times a whole number, plus five, is odd: it is not within 1 of a multiple of 10.\<close>

lemma round_6_5_margin:
  fixes i :: int
  defines "N \<equiv> \<lfloor>(of_int i * 6 / 5 :: rat) + 1 / 2\<rfloor>"
  shows "of_int N + 1 / 10 \<le> (of_int i * 6 / 5 :: rat) + 1 / 2"
    and "(of_int i * 6 / 5 :: rat) + 1 / 2 \<le> of_int N + 9 / 10"
proof -
  have eq: "(of_int i * 6 / 5 :: rat) + 1 / 2 = of_int (12 * i + 5) / 10" by simp
  have N: "N = (12 * i + 5) div 10"
    unfolding N_def eq by (simp add: floor_divide_of_int_eq [where ?'a = rat, symmetric])
  define r where "r = (12 * i + 5) mod 10"
  have "1 \<le> r" "r \<le> 9" unfolding r_def by presburger+
  moreover have "12 * i + 5 = 10 * N + r" unfolding N r_def by simp
  then have "(of_int (12 * i + 5) :: rat) = 10 * of_int N + of_int r"
    by (metis of_int_add of_int_mult of_int_numeral)
  ultimately show "of_int N + 1 / 10 \<le> (of_int i * 6 / 5 :: rat) + 1 / 2"
    and "(of_int i * 6 / 5 :: rat) + 1 / 2 \<le> of_int N + 9 / 10"
    unfolding eq by simp_all
qed

lemma floor_half [simp]: "\<lfloor>1 / 2 :: rat\<rfloor> = 0"
  by (rule floor_unique) simp_all

subsection \<open>Rounding yields binary64 values\<close>

lemma round_half_even_le: "x \<le> of_int k \<Longrightarrow> round_half_even x \<le> k"
proof -
  assume le: "x \<le> of_int k"
  have f: "of_int \<lfloor>x\<rfloor> \<le> x" "x < of_int \<lfloor>x\<rfloor> + 1" by linarith+
  have "\<lfloor>x\<rfloor> \<le> k" using le by (simp add: floor_le_iff)
  moreover have "\<lfloor>x\<rfloor> + 1 \<le> k" if "1 / 2 \<le> x - of_int \<lfloor>x\<rfloor>"
  proof -
    have "of_int \<lfloor>x\<rfloor> < (of_int k :: rat)" using that le by linarith
    then have "\<lfloor>x\<rfloor> < k" by (simp only: of_int_less_iff)
    then show ?thesis by simp
  qed
  ultimately show ?thesis
    by (auto simp: round_half_even_def Let_def)
qed

lemma abs_round_half_even_le: "\<bar>x\<bar> \<le> of_int k \<Longrightarrow> \<bar>round_half_even x\<bar> \<le> k"
proof -
  assume a: "\<bar>x\<bar> \<le> of_int k"
  then have "x \<le> of_int k" "of_int (- k) \<le> x" by (simp_all add: abs_le_iff)
  then have "round_half_even x \<le> k" "- k \<le> round_half_even x"
    by (simp_all only: round_half_even_le round_half_even_ge)
  then show ?thesis by (simp add: abs_le_iff)
qed

lemma abs_round_half_even_ge: "of_int k \<le> \<bar>x\<bar> \<Longrightarrow> 0 \<le> k \<Longrightarrow> k \<le> \<bar>round_half_even x\<bar>"
proof -
  assume a: "of_int k \<le> \<bar>x\<bar>" and k: "0 \<le> k"
  show ?thesis
  proof (cases "0 \<le> x")
    case True
    with a have "of_int k \<le> x" by simp
    then have "k \<le> round_half_even x" by (rule round_half_even_ge)
    then show ?thesis by simp
  next
    case False
    with a have "x \<le> of_int (- k)" by simp
    then have "round_half_even x \<le> - k" by (rule round_half_even_le)
    then show ?thesis by simp
  qed
qed

lemma binade_eqI:
  assumes "\<bar>r\<bar> < 2 powi (e + 1)" "- 1022 < e \<longrightarrow> 2 powi e \<le> \<bar>r\<bar>" "- 1022 \<le> e" "r \<noteq> 0"
  shows "binade r = e"
proof (cases "e = - 1022")
  case True
  have r: "0 < \<bar>r\<bar>" using assms(4) by simp
  have "2 powi (ilog2 \<bar>r\<bar>) \<le> \<bar>r\<bar>" using ilog2_bounds [OF r] by simp
  also note assms(1)
  finally have "ilog2 \<bar>r\<bar> < e + 1" by (rule powi2_less_imp)
  then show ?thesis using True by (simp add: binade_def)
next
  case False
  with assms(2,3) have "2 powi e \<le> \<bar>r\<bar>" by simp
  from ilog2_eqI [OF this assms(1)] show ?thesis using assms(3) by (simp add: binade_def)
qed

text \<open>The result of a rounding is a binary64 value.\<close>

lemma fl_is_double: "is_double (fl q)"
proof (cases "q = 0")
  case True
  then show ?thesis by (simp add: fl_def is_double_def)
next
  case q: False
  define e where "e = binade q"
  define u where "u = ulp q"
  define m where "m = round_half_even (q / u)"
  define r where "r = of_int m * u"
  have u: "u = 2 powi (e - 52)" "0 < u" by (simp_all add: u_def e_def ulp_def)
  have e_lo: "- 1022 \<le> e" by (simp add: e_def binade_def)
  have "\<bar>q\<bar> < 2 powi (e + 1)" unfolding e_def using q by (rule binade_upper)
  also have "(2::rat) powi (e + 1) = 2 ^ 53 * u"
    unfolding u(1) by (simp add: power_int_add power_int_diff)
  finally have "\<bar>q / u\<bar> < 2 ^ 53" using u(2) by (simp add: pos_divide_less_eq abs_mult)
  then have "\<bar>q / u\<bar> \<le> of_int (2 ^ 53)" by simp
  then have m_hi: "\<bar>m\<bar> \<le> 2 ^ 53" unfolding m_def by (rule abs_round_half_even_le)
  have m_lo: "2 ^ 52 \<le> \<bar>m\<bar>" if "- 1022 < e"
  proof -
    have "2 powi e \<le> \<bar>q\<bar>" using that q binade_lower [of q] by (simp add: e_def)
    moreover have "(2::rat) powi e = 2 ^ 52 * u"
      unfolding u(1) by (simp add: power_int_diff)
    ultimately have "of_int (2 ^ 52) \<le> \<bar>q / u\<bar>"
      using u(2) by (simp add: pos_le_divide_eq abs_mult)
    then show ?thesis unfolding m_def by (rule abs_round_half_even_ge) simp
  qed
  have "fl q = PosInf \<or> fl q = NegInf \<or> fl q = NegZero \<or> fl q = Fin 0 \<or>
      (fl q = Fin r \<and> m \<noteq> 0 \<and> e \<le> 1023 \<and> \<not> (e = 1023 \<and> \<bar>m\<bar> = 2 ^ 53))"
    using q by (auto simp: fl_def Let_def r_def m_def u_def e_def)
  moreover have "is_double PosInf" "is_double NegInf" "is_double NegZero" "is_double (Fin 0)"
    by (simp_all add: is_double_def fl_def)
  moreover have "is_double (Fin r)"
    if "fl q = Fin r \<and> m \<noteq> 0 \<and> e \<le> 1023 \<and> \<not> (e = 1023 \<and> \<bar>m\<bar> = 2 ^ 53)"
  proof -
    from that have flq: "fl q = Fin r" and m0: "m \<noteq> 0" and e_hi: "e \<le> 1023"
      and no: "\<not> (e = 1023 \<and> \<bar>m\<bar> = 2 ^ 53)" by simp_all
    have r0: "r \<noteq> 0" using m0 u(2) by (simp add: r_def)
    have absr: "\<bar>r\<bar> = of_int \<bar>m\<bar> * u" using u(2) by (simp add: r_def abs_mult)
    have "\<exists>k. r / ulp r = of_int k \<and> binade r \<le> 1023"
    proof (cases "\<bar>m\<bar> = 2 ^ 53")
      case top: True
      then have e2: "e \<le> 1022" using no e_hi by simp
      have "\<bar>r\<bar> = 2 ^ 53 * u" using top absr by simp
      also have "\<dots> = 2 powi (e + 1)"
        unfolding u(1) by (simp add: power_int_add power_int_diff)
      finally have ar: "\<bar>r\<bar> = 2 powi (e + 1)" .
      have "binade r = e + 1"
      proof (rule binade_eqI)
        show "\<bar>r\<bar> < 2 powi (e + 1 + 1)" unfolding ar by (simp add: power_int_add)
        show "- 1022 < e + 1 \<longrightarrow> 2 powi (e + 1) \<le> \<bar>r\<bar>" by (simp add: ar)
        show "- 1022 \<le> e + 1" using e_lo by simp
        show "r \<noteq> 0" by (rule r0)
      qed
      then have ur: "ulp r = 2 * u" unfolding u(1) by (simp add: ulp_def power_int_diff)
      have "m = 2 * 2 ^ 52 \<or> m = 2 * (- (2 ^ 52))" using top by (simp add: abs_if split: if_splits)
      then obtain h where h: "m = 2 * h" by blast
      have "r / ulp r = r / (2 * u)" by (simp only: ur)
      also have "\<dots> = of_int h" unfolding r_def h using u(2) by simp
      finally have "r / ulp r = of_int h" .
      moreover have "binade r \<le> 1023" using \<open>binade r = e + 1\<close> e2 by simp
      ultimately show ?thesis by blast
    next
      case below: False
      with m_hi have "\<bar>m\<bar> < 2 ^ 53" by simp
      then have "(of_int \<bar>m\<bar> :: rat) < 2 ^ 53"
        by (metis of_int_less_iff of_int_numeral of_int_power)
      then have "\<bar>r\<bar> < 2 ^ 53 * u" unfolding absr using u(2) by simp
      also have "2 ^ 53 * u = 2 powi (e + 1)"
        unfolding u(1) by (simp add: power_int_add power_int_diff)
      finally have hi: "\<bar>r\<bar> < 2 powi (e + 1)" .
      have lo: "- 1022 < e \<longrightarrow> 2 powi e \<le> \<bar>r\<bar>"
      proof
        assume "- 1022 < e"
        then have "2 ^ 52 \<le> \<bar>m\<bar>" by (rule m_lo)
        then have "(2 ^ 52 :: rat) \<le> of_int \<bar>m\<bar>"
          by (metis of_int_le_iff of_int_numeral of_int_power)
        then have "2 ^ 52 * u \<le> \<bar>r\<bar>" unfolding absr using u(2) by simp
        moreover have "(2::rat) powi e = 2 ^ 52 * u"
          unfolding u(1) by (simp add: power_int_diff)
        ultimately show "2 powi e \<le> \<bar>r\<bar>" by simp
      qed
      have b: "binade r = e" using hi lo e_lo r0 by (rule binade_eqI)
      then have "ulp r = u" unfolding u(1) by (simp add: ulp_def)
      then have "r / ulp r = r / u" by (simp only:)
      also have "\<dots> = of_int m" unfolding r_def using u(2) by simp
      finally have "r / ulp r = of_int m" .
      moreover have "binade r \<le> 1023" using b e_hi by simp
      ultimately show ?thesis by blast
    qed
    then obtain k where "r / ulp r = of_int k" "binade r \<le> 1023" by blast
    with r0 have "fl r = Fin r" by (intro fl_exact)
    then show ?thesis by (simp add: is_double_def)
  qed
  ultimately show ?thesis by auto
qed

subsection \<open>The interval growth in exact arithmetic\<close>

text \<open>
  Below \<open>2 ^ 50\<close> days the rounding of the product never reaches the next half:
  \<open>Math.round(i * c)\<close> is the rounding, half up, of the exact product of \<open>i\<close> and
  the decimal constant.
\<close>

lemma fl_pos_form:
  assumes "0 < x" "x < 2 powi 1023"
  shows "fl x = Fin (of_int (round_half_even (x / ulp x)) * ulp x)"
proof -
  have "2 powi (ilog2 x) \<le> x" using ilog2_bounds [OF assms(1)] by simp
  also note assms(2)
  finally have "ilog2 x < 1023" by (rule powi2_less_imp)
  then have "binade x \<le> 1022" using assms(1) by (simp add: binade_def)
  then show ?thesis using assms(1) by (auto simp: fl_def Let_def)
qed

lemma fl_exact_half_int_53:
  assumes "0 < j" "j < 2 ^ 53"
  shows "fl (of_int j / 2) = Fin (of_int j / 2)"
proof -
  define q :: rat where "q = of_int j / 2"
  have j1: "(1::rat) \<le> of_int j" using assms(1) by (simp add: int_one_le_iff_zero_less)
  have q0: "0 < q" "q \<noteq> 0" "\<bar>q\<bar> = q" using assms(1) by (simp_all add: q_def)
  have "2 powi (- 1) \<le> q" using j1 by (simp add: q_def)
  also have "q < 2 powi (ilog2 q + 1)" using ilog2_bounds [OF q0(1)] by simp
  finally have lo: "- 1 \<le> ilog2 q" using powi2_less_imp [of "- 1" "ilog2 q + 1"] by simp
  then have be: "binade q = ilog2 q" by (simp add: binade_def q0)
  have "(of_int j :: rat) < of_int (2 ^ 53)" using assms(2) by (simp only: of_int_less_iff)
  then have "q < 2 powi 52" by (simp add: q_def)
  with ilog2_bounds [OF q0(1)] have "2 powi (ilog2 q) < (2::rat) powi 52" by simp
  then have hi: "ilog2 q < 52" by (rule powi2_less_imp)
  define k where "k = nat (51 - ilog2 q)"
  have "nat (52 - ilog2 q) = Suc k" using hi by (simp add: k_def)
  moreover have "ulp q = 1 / 2 ^ nat (52 - ilog2 q)"
    using hi be by (simp add: ulp_def power_int_def field_simps)
  ultimately have u: "ulp q = 1 / (2 * 2 ^ k)" by simp
  have "q / ulp q = q * (2 * 2 ^ k)" unfolding u by simp
  also have "\<dots> = of_int j * 2 ^ k" by (simp add: q_def)
  also have "\<dots> = of_int (j * 2 ^ k)" by simp
  finally have "q / ulp q = of_int (j * 2 ^ k)" .
  moreover have "binade q \<le> 1023" using be hi by simp
  ultimately have "fl q = Fin q" using q0(2) by (intro fl_exact)
  then show ?thesis by (simp add: q_def)
qed

lemma hard_growth:
  assumes "0 < i" "i < 2 ^ 50"
  shows "Math_round (js_mul (Fin (of_int i)) lit_1_2) = Fin (of_int \<lfloor>(of_int i * 6 / 5 :: rat) + 1 / 2\<rfloor>)"
proof -
  define c :: rat where "c = 5404319552844595 / 4503599627370496"
  define x where "x = of_int i * c"
  define N where "N = \<lfloor>(of_int i * 6 / 5 :: rat) + 1 / 2\<rfloor>"
  define g :: rat where "g = of_int i / (5 * 2 ^ 52)"
  define e where "e = binade x"
  define m where "m = round_half_even (x / ulp x)"
  define r where "r = of_int m * ulp x"
  have i1: "(1::rat) \<le> of_int i" using assms(1) by (simp add: int_one_le_iff_zero_less)
  have i50: "(of_int i :: rat) < 2 ^ 50"
    using assms(2) by (metis of_int_less_iff of_int_numeral of_int_power)
  have c: "c = 6 / 5 - 1 / (5 * 2 ^ 52)" unfolding c_def by simp
  have x: "x = of_int i * 6 / 5 - g"
    unfolding x_def c g_def by (simp add: algebra_simps)
  have gap: "0 < g" "g < 1 / 20"
    unfolding g_def using i1 i50 by simp_all
  have x1: "1 \<le> x" unfolding x_def c_def using i1 by simp
  then have xpos: "0 < x" by simp
  have "x < 2 ^ 50 * 2" unfolding x_def c_def using i50 i1
    by (intro mult_strict_mono) simp_all
  then have x51: "x < 2 powi (50 + 1)" by simp
  then have xfin: "x < 2 powi 1023"
    by (rule less_le_trans) (intro powi2_mono, simp)
  have flx: "fl x = Fin r" unfolding r_def m_def using xpos xfin by (rule fl_pos_form)
  \<comment> \<open>the binade of the product\<close>
  have "2 powi 0 \<le> x" using x1 by simp
  also have "x < 2 powi (ilog2 x + 1)" using ilog2_bounds [OF xpos] by simp
  finally have e0: "0 \<le> ilog2 x" using powi2_less_imp [of 0 "ilog2 x + 1"] by simp
  have "2 powi (ilog2 x) \<le> x" using ilog2_bounds [OF xpos] by simp
  also note x51
  finally have "ilog2 x < 50 + 1" by (rule powi2_less_imp)
  with e0 have e: "0 \<le> e" "e \<le> 50" "e = ilog2 x"
    using xpos by (simp_all add: e_def binade_def)
  define k where "k = nat (50 - e)"
  have u: "ulp x = 1 / (4 * 2 ^ k)"
  proof -
    have "nat (52 - e) = Suc (Suc k)" using e by (simp add: k_def)
    moreover have "ulp x = 1 / 2 ^ nat (52 - e)"
      using e by (simp add: ulp_def e_def [symmetric] power_int_def field_simps)
    ultimately show ?thesis by simp
  qed
  have upos: "0 < ulp x" by simp
  \<comment> \<open>the exact product lies well inside the unit interval around \<open>N\<close>\<close>
  have mg: "of_int N + 1 / 10 \<le> (of_int i * 6 / 5 :: rat) + 1 / 2"
    "(of_int i * 6 / 5 :: rat) + 1 / 2 \<le> of_int N + 9 / 10"
    unfolding N_def by (rule round_6_5_margin)+
  \<comment> \<open>below: \<open>N - 1/2\<close> is a value of the grid, and it is at most \<open>x\<close>\<close>
  have lo: "of_int N - 1 / 2 \<le> r"
  proof -
    define K where "K = (2 * N - 1) * 2 * 2 ^ k"
    have Ku: "of_int K * ulp x = of_int N - 1 / 2"
      unfolding K_def u by (simp add: field_simps)
    have "of_int N - 1 / 2 \<le> x" using mg(1) gap(2) unfolding x by linarith
    then have "of_int K * ulp x \<le> x" by (simp only: Ku)
    then have "of_int K \<le> x / ulp x" using upos by (simp add: pos_le_divide_eq)
    then have "K \<le> m" unfolding m_def by (rule round_half_even_ge)
    then have "(of_int K :: rat) \<le> of_int m" by (simp only: of_int_le_iff)
    then have "of_int K * ulp x \<le> of_int m * ulp x"
      using upos by (simp add: mult_right_mono)
    then show ?thesis by (simp only: Ku r_def)
  qed
  \<comment> \<open>above: the rounding error is at most half a unit in the last place\<close>
  have "\<bar>of_int m - x / ulp x\<bar> \<le> 1 / 2"
    unfolding m_def by (rule round_half_even_error)
  then have "of_int m \<le> x / ulp x + 1 / 2" by linarith
  then have "of_int m * ulp x \<le> (x / ulp x + 1 / 2) * ulp x"
    using upos by (simp add: mult_right_mono)
  also have "\<dots> = x + ulp x / 2" by (simp add: distrib_right)
  finally have up: "r \<le> x + ulp x / 2" by (simp only: r_def)
  have hi: "r + 1 / 2 < of_int N + 1"
  proof (cases "e = 50")
    case True
    then have "2 powi 50 \<le> x" using ilog2_bounds [OF xpos] e(3) by simp
    then have "2 ^ 50 \<le> of_int i * c" by (simp add: x_def)
    also have "of_int i * c < of_int i * 2" using i1 by (simp add: c_def)
    finally have "(2 ^ 49 :: rat) < of_int i" by simp
    then have "1 / 40 < g" by (simp add: g_def)
    moreover have "ulp x = 1 / 4" using True by (simp add: u k_def)
    ultimately show ?thesis using up mg(2) unfolding x by linarith
  next
    case False
    with e(2) have "1 \<le> k" by (simp add: k_def)
    then have "(2::rat) ^ 1 \<le> 2 ^ k" by (intro power_increasing) simp_all
    then have "ulp x \<le> 1 / 8" unfolding u by (simp add: field_simps)
    then show ?thesis using up mg(2) gap(1) unfolding x by linarith
  qed
  have "of_int N \<le> r + 1 / 2" using lo by linarith
  then have fl_N: "\<lfloor>r + 1 / 2\<rfloor> = N" using hi by (rule floor_unique)
  have "1 \<le> N" using i1 unfolding N_def by (simp add: le_floor_iff)
  then have "(1::rat) \<le> of_int N" by simp
  then have rpos: "0 < r" using lo by linarith
  have "js_mul (Fin (of_int i)) lit_1_2 = fl x"
    unfolding lit_1_2_eq x_def c_def using assms(1) by (intro js_mul_Fin_pos) simp_all
  then show ?thesis using rpos fl_N flx by (simp add: N_def)
qed

lemma good_growth:
  assumes "0 < i" "i < 2 ^ 50"
  shows "Math_round (js_mul (Fin (of_int i)) lit_2_5) = Fin (of_int \<lfloor>(of_int i * 5 / 2 :: rat) + 1 / 2\<rfloor>)"
proof -
  have "5 * i < 2 ^ 53" "0 < 5 * i" using assms by simp_all
  then have "fl (of_int (5 * i) / 2) = Fin (of_int (5 * i) / 2)"
    by (intro fl_exact_half_int_53)
  moreover have "(of_int (5 * i) / 2 :: rat) = of_int i * (5 / 2)" by simp
  ultimately have f: "fl (of_int i * (5 / 2)) = Fin (of_int i * (5 / 2))" by (simp only:)
  have "js_mul (Fin (of_int i)) lit_2_5 = fl (of_int i * (5 / 2))"
    unfolding lit_2_5_eq using assms(1) by (intro js_mul_Fin_pos) simp_all
  then show ?thesis using assms(1) unfolding f by simp
qed

lemma easy_growth:
  assumes "0 < i" "i < 2 ^ 50"
  shows "Math_round (js_mul (Fin (of_int i)) (Fin 3)) = Fin (of_int (3 * i))"
proof -
  have "0 \<le> 3 * i" "3 * i \<le> 2 ^ 53" using assms by simp_all
  then have "fl (of_int (3 * i)) = Fin (of_int (3 * i))" by (rule fl_exact_int)
  then have f: "fl (of_int i * 3) = Fin (of_int (3 * i))" by (simp add: mult.commute)
  have "js_mul (Fin (of_int i)) (Fin 3) = fl (of_int i * 3)"
    using assms(1) by (intro js_mul_Fin_pos) simp_all
  then show ?thesis unfolding f
    using assms(1) by simp
qed

subsection \<open>The accuracy of the ease\<close>

text \<open>
  A rounding of a value from \<open>1 / 2\<close> on is off by at most the value over \<open>2 ^ 53\<close>.
\<close>

lemma ulp_rel:
  assumes "2 powi (- 1022) \<le> x"
  shows "ulp x \<le> x / 2 ^ 52"
proof -
  have xpos: "0 < x" using assms by (rule less_le_trans [rotated]) simp
  note assms
  also have "x < 2 powi (ilog2 x + 1)" using ilog2_bounds [OF xpos] by simp
  finally have "- 1022 < ilog2 x + 1" by (rule powi2_less_imp)
  then have "binade x = ilog2 x" using xpos by (simp add: binade_def)
  then have "ulp x = 2 powi (ilog2 x) / 2 ^ 52" by (simp add: ulp_def power_int_diff)
  also have "\<dots> \<le> x / 2 ^ 52"
    using ilog2_bounds [OF xpos] by (simp add: divide_right_mono)
  finally show ?thesis .
qed

lemma fl_rel_error:
  assumes "1 / 2 \<le> x" "x < 2 powi 1023"
  shows "\<exists>r. fl x = Fin r \<and> \<bar>r - x\<bar> \<le> x / 2 ^ 53"
proof -
  have xpos: "0 < x" using assms(1) by simp
  have "(2::rat) powi (- 1022) \<le> 2 powi (- 1)" by (rule powi2_mono) simp
  also have "\<dots> \<le> x" using assms(1) by simp
  finally have "ulp x \<le> x / 2 ^ 52" by (rule ulp_rel)
  moreover from fl_error [OF xpos assms(2)]
  obtain r where "fl x = Fin r" "\<bar>r - x\<bar> \<le> ulp x / 2" by blast
  ultimately have "fl x = Fin r \<and> \<bar>r - x\<bar> \<le> x / 2 ^ 53" by simp
  then show ?thesis ..
qed

lemma powi_1022_less: "e < 2 powi 1022 \<Longrightarrow> e + 1 < (2::rat) powi 1023"
proof -
  assume "e < 2 powi 1022"
  moreover have "(1::rat) \<le> 2 powi 1022" using powi2_mono [of 0 1022] by simp
  moreover have "(2::rat) powi 1023 = 2 powi 1022 + 2 powi 1022"
    by (simp add: power_int_add [of 2 1022 1, simplified])
  ultimately show ?thesis by linarith
qed

text \<open>Subtracting a literal, and the larger of a positive literal and a number.\<close>

lemma js_sub_Fin: "c \<noteq> 0 \<Longrightarrow> js_sub (Fin e) (Fin c) = fl (e - c)"
  by (simp add: js_sub_def)

lemma Math_max_Fin_cases:
  "0 < a \<Longrightarrow>
   Math_max (Fin a) y =
     (case y of
        NaN \<Rightarrow> NaN
      | PosInf \<Rightarrow> PosInf
      | NegInf \<Rightarrow> Fin a
      | NegZero \<Rightarrow> Fin a
      | Fin r \<Rightarrow> Fin (max a r))"
  by (cases y) (auto simp: Math_max_def js_lt_def max_def)

lemma max_diff: "\<bar>max a r - max b (s::rat)\<bar> \<le> max \<bar>a - b\<bar> \<bar>r - s\<bar>"
  by (simp add: max_def abs_if split: if_splits)

text \<open>
  The rounding of \<open>e - c\<close> (or \<open>e + c\<close>), clamped below at the literal \<open>a\<close>, is within
  \<open>e / 2 ^ 52\<close> of the exact value with the decimal constants \<open>c'\<close> and \<open>a'\<close>.
\<close>

lemma clamp_close:
  fixes e c c' a a' x r E :: rat
  assumes r: "\<bar>r - x\<bar> \<le> x / 2 ^ 53" and x: "0 \<le> x" "x \<le> e + e / 4"
    and E: "E = e / 2 ^ 53" and e: "1 \<le> e"
    and c: "\<bar>x - x'\<bar> \<le> E / 4" and a: "\<bar>a - a'\<bar> \<le> E"
  shows "\<bar>max a r - max a' x'\<bar> \<le> e / 2 ^ 52" and "\<bar>r - x'\<bar> \<le> e / 2 ^ 52"
proof -
  have "x / 2 ^ 53 \<le> (e + e / 4) / 2 ^ 53" using x(2) by (rule divide_right_mono) simp
  also have "\<dots> = E + E / 4" by (simp add: E add_divide_distrib)
  finally have "\<bar>r - x\<bar> \<le> E + E / 4" using r by linarith
  moreover have E0: "0 \<le> E" using e by (simp add: E)
  ultimately have rx: "\<bar>r - x'\<bar> \<le> 2 * E" using c by linarith
  have E2: "2 * E = e / 2 ^ 52" by (simp add: E)
  show "\<bar>r - x'\<bar> \<le> e / 2 ^ 52" using rx by (simp only: E2)
  from E0 a have "\<bar>a - a'\<bar> \<le> 2 * E" by linarith
  with rx have "max \<bar>a - a'\<bar> \<bar>r - x'\<bar> \<le> 2 * E" by simp
  with max_diff [of a r a' x'] have "\<bar>max a r - max a' x'\<bar> \<le> 2 * E" by linarith
  then show "\<bar>max a r - max a' x'\<bar> \<le> e / 2 ^ 52" by (simp only: E2)
qed


lemma ease_hard_close:
  assumes "1 \<le> e" "e < 2 powi 1022"
  shows "\<exists>r. Math_max lit_1_3 (js_sub (Fin e) lit_0_15) = Fin r \<and>
    \<bar>r - max (13 / 10) (e - 15 / 100)\<bar> \<le> e / 2 ^ 52"
proof -
  define c :: rat where "c = 5404319552844595 / 36028797018963968"
  define a :: rat where "a = 5854679515581645 / 4503599627370496"
  have "1 / 2 \<le> e - c" using assms(1) by (simp add: c_def)
  moreover have "e - c < 2 powi 1023"
    using powi_1022_less [OF assms(2)] by (simp add: c_def)
  ultimately obtain r where r: "fl (e - c) = Fin r" "\<bar>r - (e - c)\<bar> \<le> (e - c) / 2 ^ 53"
    using fl_rel_error by blast
  have "\<bar>max a r - max (13 / 10) (e - 15 / 100)\<bar> \<le> e / 2 ^ 52"
  proof (rule clamp_close(1) [OF r(2) _ _ refl assms(1)])
    show "0 \<le> e - c" "e - c \<le> e + e / 4" using assms(1) by (simp_all add: c_def)
    show "\<bar>e - c - (e - 15 / 100)\<bar> \<le> e / 2 ^ 53 / 4" using assms(1) by (simp add: c_def)
    show "\<bar>a - 13 / 10\<bar> \<le> e / 2 ^ 53" using assms(1) by (simp add: a_def)
  qed
  moreover have "Math_max lit_1_3 (js_sub (Fin e) lit_0_15) = Fin (max a r)"
    unfolding lit_1_3_eq lit_0_15_eq
    by (simp add: js_sub_Fin r(1) [unfolded c_def] a_def Math_max_Fin_cases)
  ultimately show ?thesis by blast
qed

lemma ease_easy_close:
  assumes "1 \<le> e" "e < 2 powi 1022"
  shows "\<exists>r. js_add (Fin e) lit_0_15 = Fin r \<and> \<bar>r - (e + 15 / 100)\<bar> \<le> e / 2 ^ 52"
proof -
  define c :: rat where "c = 5404319552844595 / 36028797018963968"
  have "1 / 2 \<le> e + c" using assms(1) by (simp add: c_def)
  moreover have "e + c < 2 powi 1023"
    using powi_1022_less [OF assms(2)] by (simp add: c_def)
  ultimately obtain r where r: "fl (e + c) = Fin r" "\<bar>r - (e + c)\<bar> \<le> (e + c) / 2 ^ 53"
    using fl_rel_error by blast
  have "\<bar>r - (e + 15 / 100)\<bar> \<le> e / 2 ^ 52"
  proof (rule clamp_close(2) [OF r(2) _ _ refl assms(1), where a = 0 and a' = 0])
    show "0 \<le> e + c" "e + c \<le> e + e / 4" using assms(1) by (simp_all add: c_def)
    show "\<bar>e + c - (e + 15 / 100)\<bar> \<le> e / 2 ^ 53 / 4" using assms(1) by (simp add: c_def)
    show "\<bar>0 - 0 :: rat\<bar> \<le> e / 2 ^ 53" using assms(1) by simp
  qed
  moreover have "js_add (Fin e) lit_0_15 = Fin r"
    unfolding lit_0_15_eq by (simp add: r(1) [unfolded c_def])
  ultimately show ?thesis by blast
qed

subsection \<open>The new ease\<close>

lemma ease_of_nextSrs:
  "ease (nextState (nextSrs host state rating)) =
     Some (if rating = Again then Math_max lit_1_3 (js_sub (norm_ease state) lit_0_2)
           else if rating = Hard then Math_max lit_1_3 (js_sub (norm_ease state) lit_0_15)
           else if rating = Good then norm_ease state
           else js_add (norm_ease state) lit_0_15)"
  by (simp add: nextSrs_def Let_def)


lemma fl_neg_lit_0_15:
  "fl (- (5404319552844595 / 36028797018963968)) = Fin (- (5404319552844595 / 36028797018963968))"
  by code_simp

lemma fl_lit_0_15:
  "fl (5404319552844595 / 36028797018963968) = Fin (5404319552844595 / 36028797018963968)"
  by code_simp


lemma ease_hard_cases:
  "Math_max lit_1_3 (js_sub x lit_0_15) =
     (case x of
        NaN \<Rightarrow> NaN
      | PosInf \<Rightarrow> PosInf
      | NegInf \<Rightarrow> Fin (5854679515581645 / 4503599627370496)
      | NegZero \<Rightarrow> Fin (5854679515581645 / 4503599627370496)
      | Fin e \<Rightarrow>
          (case fl (e - 5404319552844595 / 36028797018963968) of
             NaN \<Rightarrow> NaN
           | PosInf \<Rightarrow> PosInf
           | NegInf \<Rightarrow> Fin (5854679515581645 / 4503599627370496)
           | NegZero \<Rightarrow> Fin (5854679515581645 / 4503599627370496)
           | Fin r \<Rightarrow> Fin (max (5854679515581645 / 4503599627370496) r)))"
proof (cases x)
  case (Fin e)
  then show ?thesis
    by (simp add: lit_1_3_eq lit_0_15_eq js_sub_Fin Math_max_Fin_cases)
qed (simp_all add: lit_1_3_eq lit_0_15_eq js_sub_def js_add_def Math_max_Fin_cases fl_neg_lit_0_15)

lemma ease_easy_cases:
  "js_add x lit_0_15 =
     (case x of
        NaN \<Rightarrow> NaN
      | PosInf \<Rightarrow> PosInf
      | NegInf \<Rightarrow> NegInf
      | NegZero \<Rightarrow> Fin (5404319552844595 / 36028797018963968)
      | Fin e \<Rightarrow> fl (e + 5404319552844595 / 36028797018963968))"
  by (cases x) (simp_all add: lit_0_15_eq js_add_def)


subsection \<open>The new interval of a normalised state\<close>

lemma grow_exact:
  assumes "norm_intervalDays state = Fin (of_int j)" "0 \<le> j" "j < 2 ^ 50"
  shows "intervalDays (nextState (nextSrs host state Hard)) =
      Some (Fin (of_int (if j = 0 then 1 else max 1 \<lfloor>(of_int j * 6 / 5 :: rat) + 1 / 2\<rfloor>)))"
    and "intervalDays (nextState (nextSrs host state Good)) =
      Some (Fin (of_int (if j = 0 then 1 else max 1 \<lfloor>(of_int j * 5 / 2 :: rat) + 1 / 2\<rfloor>)))"
    and "intervalDays (nextState (nextSrs host state Easy)) =
      Some (Fin (of_int (if j = 0 then 2 else max 2 (3 * j))))"
proof -
  have one: "Fin 1 = Fin (of_int 1)" and two: "Fin 2 = Fin (of_int 2)" by simp_all
  have "intervalDays (nextState (nextSrs host state Hard)) =
      Some (Fin (of_int (if j = 0 then 1 else max 1 \<lfloor>(of_int j * 6 / 5 :: rat) + 1 / 2\<rfloor>))) \<and>
    intervalDays (nextState (nextSrs host state Good)) =
      Some (Fin (of_int (if j = 0 then 1 else max 1 \<lfloor>(of_int j * 5 / 2 :: rat) + 1 / 2\<rfloor>))) \<and>
    intervalDays (nextState (nextSrs host state Easy)) =
      Some (Fin (of_int (if j = 0 then 2 else max 2 (3 * j))))"
  proof (cases "j = 0")
    case True
    then show ?thesis using assms(1) by (simp add: intervalDays_of_nextSrs)
  next
    case False
    with assms(2) have pos: "0 < j" by simp
    have "Math_max (Fin 1) (Math_round (js_mul (Fin (of_int j)) lit_1_2)) =
        Fin (of_int (max 1 \<lfloor>(of_int j * 6 / 5 :: rat) + 1 / 2\<rfloor>))"
      unfolding hard_growth [OF pos assms(3)] one Math_max_Fin by (simp only: of_int_max)
    moreover have "Math_max (Fin 1) (Math_round (js_mul (Fin (of_int j)) lit_2_5)) =
        Fin (of_int (max 1 \<lfloor>(of_int j * 5 / 2 :: rat) + 1 / 2\<rfloor>))"
      unfolding good_growth [OF pos assms(3)] one Math_max_Fin by (simp only: of_int_max)
    moreover have "Math_max (Fin 2) (Math_round (js_mul (Fin (of_int j)) (Fin 3))) =
        Fin (of_int (max 2 (3 * j)))"
      unfolding easy_growth [OF pos assms(3)] two Math_max_Fin by (simp only: of_int_max)
    ultimately show ?thesis using False
      by (simp add: intervalDays_of_nextSrs assms(1))
  qed
  then show "intervalDays (nextState (nextSrs host state Hard)) =
      Some (Fin (of_int (if j = 0 then 1 else max 1 \<lfloor>(of_int j * 6 / 5 :: rat) + 1 / 2\<rfloor>)))"
    and "intervalDays (nextState (nextSrs host state Good)) =
      Some (Fin (of_int (if j = 0 then 1 else max 1 \<lfloor>(of_int j * 5 / 2 :: rat) + 1 / 2\<rfloor>)))"
    and "intervalDays (nextState (nextSrs host state Easy)) =
      Some (Fin (of_int (if j = 0 then 2 else max 2 (3 * j))))"
    by blast+
qed

subsection \<open>Normalising twice\<close>

lemma normalised_count_again:
  "Math_max (Fin 0) (Math_floor (nullish (Some (normalised_count x)) (Fin 0))) =
   Math_max (Fin 0) (Math_floor (nullish x (Fin 0)))"
proof -
  have "Math_max (Fin 0) (Math_floor (normalised_count x)) = normalised_count x"
    by (simp add: normalised_count_def max_def split: option.splits number.splits)
  moreover have "Math_max (Fin 0) (Math_floor (nullish x (Fin 0))) = normalised_count x"
    unfolding normalised_count_def by (rule normalise_count)
  moreover have "nullish (Some (normalised_count x)) (Fin 0) = normalised_count x"
    by (simp add: nullish_def)
  ultimately show ?thesis by simp
qed

lemma nextSrs_normalised: "nextSrs host (normalised state) rating = nextSrs host state rating"
proof -
  have i: "norm_intervalDays (normalised state) = norm_intervalDays state"
    and r: "norm_reps (normalised state) = norm_reps state"
    by (simp_all add: norm_intervalDays_def norm_reps_def normalised_def normalised_count_again)
  have e: "norm_ease (normalised state) = norm_ease state"
    by (simp add: norm_ease_def normalised_def lit_2_5_eq split: option.splits)
  show ?thesis unfolding nextSrs_def i r e by (rule refl)
qed

lemma norm_intervalDays_Fin:
  "intervalDays state = Some (Fin q) \<Longrightarrow> norm_intervalDays state = Fin (of_int (max 0 \<lfloor>q\<rfloor>))"
  by (simp add: norm_intervalDays_def normalise_count)

lemma norm_reps_Fin:
  "reps state = Some (Fin q) \<Longrightarrow> norm_reps state = Fin (of_int (max 0 \<lfloor>q\<rfloor>))"
  by (simp add: norm_reps_def normalise_count)

lemma norm_intervalDays_absent:
  "intervalDays state = None \<or> intervalDays state = Some NegInf \<or> intervalDays state = Some NegZero
   \<Longrightarrow> norm_intervalDays state = Fin (of_int 0)"
  by (auto simp: norm_intervalDays_def normalise_count)

lemma norm_reps_absent:
  "reps state = None \<or> reps state = Some NegInf \<or> reps state = Some NegZero
   \<Longrightarrow> norm_reps state = Fin (of_int 0)"
  by (auto simp: norm_reps_def normalise_count)

lemma reps_plus_one_norm:
  assumes "norm_reps state = Fin (of_int n)" "0 \<le> n" "n < 2 ^ 53" "rating \<noteq> Again"
  shows "reps (nextState (nextSrs host state rating)) = Some (Fin (of_int (n + 1)))"
proof -
  have "fl (of_int (n + 1)) = Fin (of_int (n + 1))"
    using assms(2,3) by (intro fl_exact_int) simp_all
  then show ?thesis
    using assms by (simp add: reps_of_nextSrs)
qed

subsection \<open>The due date on two hosts\<close>

lemma dueAt_whole:
  assumes "\<bar>clock host\<bar> \<le> 8640000000000000"
    and "intervalDays (nextState (nextSrs host state rating)) = Some (Fin (of_int k))"
    and "0 \<le> k" "k \<le> 2 ^ 52"
  shows "dueAt (nextSrs host state rating) =
    TimeClip (Some (UTC host (LocalTime host (clock host) + k * msPerDay)))"
proof -
  have "dueAt (nextSrs host state rating) = addDays host (Date (clock host)) (Fin (of_int k))"
    using assms(2) by (rule dueAt_of_nextSrs)
  also have "\<dots> = TimeClip (Some (UTC host (LocalTime host (clock host) + k * msPerDay)))"
    using assms(1,3,4) by (rule addDays_whole)
  finally show ?thesis .
qed

lemma addDays_in_fresh:
  "addDays_in host store date days = (length store, store @ [addDays host (store ! date) days])"
  by (simp add: addDays_in_def addDays_def Let_def)

subsection \<open>The new state does not read the host\<close>

lemma nextState_any_host:
  "nextState (nextSrs h1 state rating) = nextState (nextSrs h2 state rating)"
  by (simp add: nextSrs_def Let_def)

subsection \<open>The rating \<open>again\<close>\<close>



subsection \<open>Determinism\<close>

text \<open>
  C9, as amended. The new state is the same on every host: it depends on the state and
  the rating only. The due date depends on the host through the clock and through the
  zone's offset at two instants, that of \<open>now\<close> and that of the due local time: two hosts
  that read the same \<open>now\<close> and agree on these two offsets return the same due date,
  whatever their zones do elsewhere; and two hosts at fixed offsets from UTC return the
  same due date, \<open>now\<close> plus \<open>k\<close> times 24 hours, whatever the two offsets are (here
  the new \<open>intervalDays\<close> is a whole number \<open>k\<close>, at most \<open>2 ^ 52\<close>, and \<open>now\<close> is within
  the range of a \<open>Date\<close>). \<open>addDays\<close> writes to no \<open>Date\<close> object that existed before
  the call: it returns a new object, whose value is the one computed by \<open>addDays\<close> on
  values, and the store is otherwise as it was.
\<close>

theorem nextSrs_deterministic:
  "nextState (nextSrs h1 state rating) = nextState (nextSrs h2 state rating) \<and>
   (\<forall>k. clock h1 = clock h2 \<and> \<bar>clock h1\<bar> \<le> 8640000000000000 \<and>
      intervalDays (nextState (nextSrs h1 state rating)) = Some (Fin (of_int k)) \<and>
      0 \<le> k \<and> k \<le> 2 ^ 52 \<longrightarrow>
      ((\<exists>c. \<forall>t b. LocalTZA h1 t b = c) \<and> (\<exists>c. \<forall>t b. LocalTZA h2 t b = c) \<longrightarrow>
         dueAt (nextSrs h1 state rating) = TimeClip (Some (clock h1 + k * msPerDay)) \<and>
         dueAt (nextSrs h2 state rating) = TimeClip (Some (clock h1 + k * msPerDay))) \<and>
      (LocalTZA h1 (clock h1) True = LocalTZA h2 (clock h1) True \<and>
       LocalTZA h1 (LocalTime h1 (clock h1) + k * msPerDay) False =
         LocalTZA h2 (LocalTime h1 (clock h1) + k * msPerDay) False \<longrightarrow>
         dueAt (nextSrs h1 state rating) = dueAt (nextSrs h2 state rating))) \<and>
   (\<forall>store date days. date < length store \<longrightarrow>
      fst (addDays_in host store date days) = length store \<and>
      snd (addDays_in host store date days) = store @ [addDays host (store ! date) days] \<and>
      (\<forall>a < length store. snd (addDays_in host store date days) ! a = store ! a))"
proof -
  have two: "dueAt (nextSrs h1 state rating) =
        TimeClip (Some (UTC h1 (LocalTime h1 (clock h1) + k * msPerDay))) \<and>
      dueAt (nextSrs h2 state rating) =
        TimeClip (Some (UTC h2 (LocalTime h2 (clock h1) + k * msPerDay)))"
    if a: "clock h1 = clock h2 \<and> \<bar>clock h1\<bar> \<le> 8640000000000000 \<and>
      intervalDays (nextState (nextSrs h1 state rating)) = Some (Fin (of_int k)) \<and>
      0 \<le> k \<and> k \<le> 2 ^ 52" for k
  proof -
    from a have k: "0 \<le> k" "k \<le> 2 ^ 52" by blast+
    from a have c: "clock h2 = clock h1" by simp
    from a have c1: "\<bar>clock h1\<bar> \<le> 8640000000000000" by blast
    then have c2: "\<bar>clock h2\<bar> \<le> 8640000000000000" by (simp only: c)
    from a have i1: "intervalDays (nextState (nextSrs h1 state rating)) = Some (Fin (of_int k))"
      by blast
    then have i2: "intervalDays (nextState (nextSrs h2 state rating)) = Some (Fin (of_int k))"
      by (simp only: nextState_any_host [of h2 state rating h1])
    from dueAt_whole [OF c1 i1 k] dueAt_whole [OF c2 i2 k] show ?thesis
      by (simp only: c simp_thms)
  qed
  show ?thesis
  proof (intro conjI allI impI)
    show "nextState (nextSrs h1 state rating) = nextState (nextSrs h2 state rating)"
      by (rule nextState_any_host)
  next
    fix k
    assume a: "clock h1 = clock h2 \<and> \<bar>clock h1\<bar> \<le> 8640000000000000 \<and>
      intervalDays (nextState (nextSrs h1 state rating)) = Some (Fin (of_int k)) \<and>
      0 \<le> k \<and> k \<le> 2 ^ 52"
    assume "(\<exists>c. \<forall>t b. LocalTZA h1 t b = c) \<and> (\<exists>c. \<forall>t b. LocalTZA h2 t b = c)"
    then obtain o1 o2 where o: "\<And>t b. LocalTZA h1 t b = o1" "\<And>t b. LocalTZA h2 t b = o2"
      by blast
    from two [OF a]
    show "dueAt (nextSrs h1 state rating) = TimeClip (Some (clock h1 + k * msPerDay))"
      and "dueAt (nextSrs h2 state rating) = TimeClip (Some (clock h1 + k * msPerDay))"
      by (simp_all add: UTC_def LocalTime_def o)
  next
    fix k
    assume a: "clock h1 = clock h2 \<and> \<bar>clock h1\<bar> \<le> 8640000000000000 \<and>
      intervalDays (nextState (nextSrs h1 state rating)) = Some (Fin (of_int k)) \<and>
      0 \<le> k \<and> k \<le> 2 ^ 52"
    assume z: "LocalTZA h1 (clock h1) True = LocalTZA h2 (clock h1) True \<and>
       LocalTZA h1 (LocalTime h1 (clock h1) + k * msPerDay) False =
         LocalTZA h2 (LocalTime h1 (clock h1) + k * msPerDay) False"
    then have l: "LocalTime h2 (clock h1) = LocalTime h1 (clock h1)"
      by (simp add: LocalTime_def)
    from z have u: "UTC h2 (LocalTime h1 (clock h1) + k * msPerDay) =
        UTC h1 (LocalTime h1 (clock h1) + k * msPerDay)"
      by (simp add: UTC_def)
    from two [OF a]
    show "dueAt (nextSrs h1 state rating) = dueAt (nextSrs h2 state rating)"
      by (simp only: l u)
  next
    fix store :: "date list" and date days
    show "fst (addDays_in host store date days) = length store"
      by (simp add: addDays_in_fresh)
    show "snd (addDays_in host store date days) = store @ [addDays host (store ! date) days]"
      by (simp add: addDays_in_fresh)
    show "snd (addDays_in host store date days) ! a = store ! a" if "a < length store" for a
      using that by (simp add: addDays_in_fresh nth_append)
  qed
qed

theorem nextSrs_deterministic_witness:
  "clock (utc_host 1709985600000) = clock (fixed_host 32400000 1709985600000) \<and>
   \<bar>clock (utc_host 1709985600000)\<bar> \<le> 8640000000000000 \<and>
   intervalDays (nextState (nextSrs (utc_host 1709985600000) initialSrsState Good)) =
     Some (Fin (of_int 1)) \<and>
   (\<exists>c. \<forall>t b. LocalTZA (utc_host 1709985600000) t b = c) \<and>
   (\<exists>c. \<forall>t b. LocalTZA (fixed_host 32400000 1709985600000) t b = c) \<and>
   LocalTZA (utc_host 1709985600000) \<noteq> LocalTZA (fixed_host 32400000 1709985600000) \<and>
   dueAt (nextSrs (utc_host 1709985600000) initialSrsState Good) = Date 1710072000000 \<and>
   dueAt (nextSrs (fixed_host 32400000 1709985600000) initialSrsState Good) = Date 1710072000000 \<and>
   clock (new_york_host 1706608800000) = clock (fixed_host (- 18000000) 1706608800000) \<and>
   \<bar>clock (new_york_host 1706608800000)\<bar> \<le> 8640000000000000 \<and>
   intervalDays (nextState (nextSrs (new_york_host 1706608800000)
     \<lparr>intervalDays = Some (Fin 1), ease = Some lit_2_5, reps = Some (Fin 1)\<rparr> Good)) =
     Some (Fin (of_int 3)) \<and>
   LocalTZA (new_york_host 1706608800000) (clock (new_york_host 1706608800000)) True =
     LocalTZA (fixed_host (- 18000000) 1706608800000) (clock (new_york_host 1706608800000)) True \<and>
   LocalTZA (new_york_host 1706608800000)
       (LocalTime (new_york_host 1706608800000) (clock (new_york_host 1706608800000)) + 3 * msPerDay) False =
     LocalTZA (fixed_host (- 18000000) 1706608800000)
       (LocalTime (new_york_host 1706608800000) (clock (new_york_host 1706608800000)) + 3 * msPerDay) False \<and>
   LocalTZA (new_york_host 1706608800000) \<noteq> LocalTZA (fixed_host (- 18000000) 1706608800000) \<and>
   dueAt (nextSrs (new_york_host 1706608800000)
     \<lparr>intervalDays = Some (Fin 1), ease = Some lit_2_5, reps = Some (Fin 1)\<rparr> Good) =
   dueAt (nextSrs (fixed_host (- 18000000) 1706608800000)
     \<lparr>intervalDays = Some (Fin 1), ease = Some lit_2_5, reps = Some (Fin 1)\<rparr> Good) \<and>
   dueAt (nextSrs (new_york_host 1706608800000)
     \<lparr>intervalDays = Some (Fin 1), ease = Some lit_2_5, reps = Some (Fin 1)\<rparr> Good) =
     Date 1706868000000 \<and>
   (0::nat) < length [Date 1706608800000] \<and>
   addDays_in (utc_host 0) [Date 1706608800000] 0 (Fin 3) =
     (1, [Date 1706608800000, Date 1706868000000])"
proof -
  let ?u = "utc_host 1709985600000" and ?j = "fixed_host 32400000 1709985600000"
  let ?n = "new_york_host 1706608800000" and ?f = "fixed_host (- 18000000) 1706608800000"
  let ?s = "\<lparr>intervalDays = Some (Fin 1), ease = Some lit_2_5, reps = Some (Fin 1)\<rparr>"
  have i1: "intervalDays (nextState (nextSrs ?u initialSrsState Good)) = Some (Fin (of_int 1))"
    by code_simp
  have a1: "clock ?u = clock ?j \<and> \<bar>clock ?u\<bar> \<le> 8640000000000000 \<and>
      intervalDays (nextState (nextSrs ?u initialSrsState Good)) = Some (Fin (of_int 1)) \<and>
      (0::int) \<le> 1 \<and> (1::int) \<le> 2 ^ 52"
    using i1 by (simp add: utc_host_def fixed_host_def)
  have o1: "(\<exists>c. \<forall>t b. LocalTZA ?u t b = c) \<and> (\<exists>c. \<forall>t b. LocalTZA ?j t b = c)"
    by (simp add: utc_host_def fixed_host_def)
  have n1: "LocalTZA ?u \<noteq> LocalTZA ?j"
    by (simp add: utc_host_def fixed_host_def fun_eq_iff)
  have v1: "TimeClip (Some (clock ?u + 1 * msPerDay)) = Date 1710072000000"
    by (simp add: utc_host_def msPerDay_def TimeClip_def)
  from nextSrs_deterministic [where ?h1.0 = ?u and ?h2.0 = ?j and state = initialSrsState
      and rating = Good, THEN conjunct2, THEN conjunct1, rule_format, OF a1, THEN conjunct1,
      rule_format, OF o1]
  have d1: "dueAt (nextSrs ?u initialSrsState Good) = Date 1710072000000"
    "dueAt (nextSrs ?j initialSrsState Good) = Date 1710072000000"
    by (simp_all only: v1)
  have i2: "intervalDays (nextState (nextSrs ?n ?s Good)) = Some (Fin (of_int 3))"
    by code_simp
  have a2: "clock ?n = clock ?f \<and> \<bar>clock ?n\<bar> \<le> 8640000000000000 \<and>
      intervalDays (nextState (nextSrs ?n ?s Good)) = Some (Fin (of_int 3)) \<and>
      (0::int) \<le> 3 \<and> (3::int) \<le> 2 ^ 52"
    using i2 by (simp add: new_york_host_def fixed_host_def)
  have z2: "LocalTZA ?n (clock ?n) True = LocalTZA ?f (clock ?n) True \<and>
      LocalTZA ?n (LocalTime ?n (clock ?n) + 3 * msPerDay) False =
        LocalTZA ?f (LocalTime ?n (clock ?n) + 3 * msPerDay) False"
    by (simp add: new_york_host_def fixed_host_def LocalTime_def msPerDay_def)
  have n2: "LocalTZA ?n \<noteq> LocalTZA ?f"
  proof
    assume "LocalTZA ?n = LocalTZA ?f"
    then have "LocalTZA ?n 1710054000000 True = LocalTZA ?f 1710054000000 True" by (rule arg_cong)
    then show False by (simp add: new_york_host_def fixed_host_def)
  qed
  from nextSrs_deterministic [where ?h1.0 = ?n and ?h2.0 = ?f and state = ?s
      and rating = Good, THEN conjunct2, THEN conjunct1, rule_format, OF a2, THEN conjunct2,
      rule_format, OF z2]
  have d2: "dueAt (nextSrs ?n ?s Good) = dueAt (nextSrs ?f ?s Good)" .
  have v2: "dueAt (nextSrs ?n ?s Good) = Date 1706868000000"
    by code_simp
  have l: "(0::nat) < length [Date 1706608800000]" by simp
  have v3: "addDays (utc_host 0) (Date 1706608800000) (Fin 3) = Date 1706868000000"
    by code_simp
  from nextSrs_deterministic [where host = "utc_host 0", THEN conjunct2, THEN conjunct2,
      rule_format, OF l, of "Fin 3"]
  have "fst (addDays_in (utc_host 0) [Date 1706608800000] 0 (Fin 3)) = 1"
    and "snd (addDays_in (utc_host 0) [Date 1706608800000] 0 (Fin 3)) =
      [Date 1706608800000, Date 1706868000000]"
    by (simp_all add: v3)
  then have d3: "addDays_in (utc_host 0) [Date 1706608800000] 0 (Fin 3) =
      (1, [Date 1706608800000, Date 1706868000000])"
    by (simp add: prod_eq_iff)
  from a1 o1 n1 d1 a2 z2 n2 d2 v2 l d3 show ?thesis by blast
qed

text \<open>
  The claim as stated fails: at the same state, the same rating and the same \<open>now\<close>
  (9 March 2024, 12:00 UTC), the host on UTC returns 10 March 12:00 UTC and the host
  on New York time returns 10 March 11:00 UTC, which is 07:00 local time on both days.
\<close>

theorem same_now_different_dueAt:
  "clock (utc_host 1709985600000) = clock (new_york_host 1709985600000) \<and>
   dueAt (nextSrs (utc_host 1709985600000) initialSrsState Good) = Date 1710072000000 \<and>
   dueAt (nextSrs (new_york_host 1709985600000) initialSrsState Good) = Date 1710068400000"
  by code_simp

subsection \<open>The ease does not drive the interval\<close>

text \<open>
  C10. Two states with the same stored \<open>intervalDays\<close> get, under the same rating on
  the same host, the same new \<open>intervalDays\<close> and the same due date, whatever their
  ease (and whatever their \<open>reps\<close>).
\<close>

theorem ease_never_influences_interval:
  "intervalDays s1 = intervalDays s2 \<Longrightarrow>
   intervalDays (nextState (nextSrs host s1 rating)) = intervalDays (nextState (nextSrs host s2 rating)) \<and>
   dueAt (nextSrs host s1 rating) = dueAt (nextSrs host s2 rating)"
  by (simp add: nextSrs_def Let_def norm_intervalDays_def)

theorem ease_never_influences_interval_witness:
  "intervalDays \<lparr>intervalDays = Some (Fin 10), ease = Some lit_2_5, reps = Some (Fin 5)\<rparr> =
   intervalDays \<lparr>intervalDays = Some (Fin 10), ease = Some lit_1_3, reps = Some (Fin 5)\<rparr> \<and>
   intervalDays (nextState (nextSrs (utc_host 0)
      \<lparr>intervalDays = Some (Fin 10), ease = Some lit_2_5, reps = Some (Fin 5)\<rparr> Easy)) =
   intervalDays (nextState (nextSrs (utc_host 0)
      \<lparr>intervalDays = Some (Fin 10), ease = Some lit_1_3, reps = Some (Fin 5)\<rparr> Easy)) \<and>
   dueAt (nextSrs (utc_host 0)
      \<lparr>intervalDays = Some (Fin 10), ease = Some lit_2_5, reps = Some (Fin 5)\<rparr> Easy) =
   dueAt (nextSrs (utc_host 0)
      \<lparr>intervalDays = Some (Fin 10), ease = Some lit_1_3, reps = Some (Fin 5)\<rparr> Easy) \<and>
   intervalDays (nextState (nextSrs (utc_host 0)
      \<lparr>intervalDays = Some (Fin 10), ease = Some lit_1_3, reps = Some (Fin 5)\<rparr> Easy)) = Some (Fin 30)"
proof -
  have same: "intervalDays \<lparr>intervalDays = Some (Fin 10), ease = Some lit_2_5, reps = Some (Fin 5)\<rparr> =
      intervalDays \<lparr>intervalDays = Some (Fin 10), ease = Some lit_1_3, reps = Some (Fin 5)\<rparr>"
    by simp
  have "intervalDays (nextState (nextSrs (utc_host 0)
      \<lparr>intervalDays = Some (Fin 10), ease = Some lit_1_3, reps = Some (Fin 5)\<rparr> Easy)) = Some (Fin 30)"
    by code_simp
  with same ease_never_influences_interval [OF same, of "utc_host 0" Easy]
  show ?thesis by simp
qed

subsection \<open>The worked examples\<close>

text \<open>
  C7. The concrete results of the specification, with the ease as the binary64 value
  of the decimal written there: from \<open>{0, 2.5, 0}\<close>, \<open>good\<close> gives \<open>{1, 2.5, 1}\<close>,
  \<open>easy\<close> gives \<open>{2, 2.65, 1}\<close>, \<open>hard\<close> gives \<open>{1, 2.35, 1}\<close> and \<open>again\<close> gives
  \<open>{1, 2.3, 0}\<close>; from \<open>{1, 2.5, 1}\<close>, \<open>good\<close> gives the interval 3 and \<open>reps = 2\<close>;
  from \<open>{10, 2.5, 5}\<close>, \<open>easy\<close> gives \<open>{30, 2.65, 6}\<close>.
\<close>

theorem worked_examples:
  "nextState (nextSrs host initialSrsState Good) =
     \<lparr>intervalDays = Some (Fin 1), ease = Some (fl (25 / 10)), reps = Some (Fin 1)\<rparr> \<and>
   nextState (nextSrs host initialSrsState Easy) =
     \<lparr>intervalDays = Some (Fin 2), ease = Some (fl (265 / 100)), reps = Some (Fin 1)\<rparr> \<and>
   nextState (nextSrs host initialSrsState Hard) =
     \<lparr>intervalDays = Some (Fin 1), ease = Some (fl (235 / 100)), reps = Some (Fin 1)\<rparr> \<and>
   nextState (nextSrs host initialSrsState Again) =
     \<lparr>intervalDays = Some (Fin 1), ease = Some (fl (23 / 10)), reps = Some (Fin 0)\<rparr> \<and>
   intervalDays (nextState (nextSrs host
      \<lparr>intervalDays = Some (Fin 1), ease = Some (fl (25 / 10)), reps = Some (Fin 1)\<rparr> Good)) = Some (Fin 3) \<and>
   reps (nextState (nextSrs host
      \<lparr>intervalDays = Some (Fin 1), ease = Some (fl (25 / 10)), reps = Some (Fin 1)\<rparr> Good)) = Some (Fin 2) \<and>
   nextState (nextSrs host
      \<lparr>intervalDays = Some (Fin 10), ease = Some (fl (25 / 10)), reps = Some (Fin 5)\<rparr> Easy) =
     \<lparr>intervalDays = Some (Fin 30), ease = Some (fl (265 / 100)), reps = Some (Fin 6)\<rparr>"
proof -
  have "nextState (nextSrs (utc_host 0) initialSrsState Good) =
     \<lparr>intervalDays = Some (Fin 1), ease = Some (fl (25 / 10)), reps = Some (Fin 1)\<rparr>"
    by code_simp
  moreover have "nextState (nextSrs (utc_host 0) initialSrsState Easy) =
     \<lparr>intervalDays = Some (Fin 2), ease = Some (fl (265 / 100)), reps = Some (Fin 1)\<rparr>"
    by code_simp
  moreover have "nextState (nextSrs (utc_host 0) initialSrsState Hard) =
     \<lparr>intervalDays = Some (Fin 1), ease = Some (fl (235 / 100)), reps = Some (Fin 1)\<rparr>"
    by code_simp
  moreover have "nextState (nextSrs (utc_host 0) initialSrsState Again) =
     \<lparr>intervalDays = Some (Fin 1), ease = Some (fl (23 / 10)), reps = Some (Fin 0)\<rparr>"
    by code_simp
  moreover have "nextState (nextSrs (utc_host 0)
      \<lparr>intervalDays = Some (Fin 1), ease = Some (fl (25 / 10)), reps = Some (Fin 1)\<rparr> Good) =
     \<lparr>intervalDays = Some (Fin 3), ease = Some (fl (25 / 10)), reps = Some (Fin 2)\<rparr>"
    by code_simp
  moreover have "nextState (nextSrs (utc_host 0)
      \<lparr>intervalDays = Some (Fin 10), ease = Some (fl (25 / 10)), reps = Some (Fin 5)\<rparr> Easy) =
     \<lparr>intervalDays = Some (Fin 30), ease = Some (fl (265 / 100)), reps = Some (Fin 6)\<rparr>"
    by code_simp
  ultimately show ?thesis
    by (simp add: nextState_any_host [of host _ _ "utc_host 0"])
qed

subsection \<open>The branches \<open>hard\<close>, \<open>good\<close> and \<open>easy\<close>\<close>

text \<open>
  C1, as amended. On a normalised state (\<open>intervalDays\<close> a whole number \<open>i \<ge> 0\<close>,
  \<open>ease\<close> a number \<open>x\<close>, whatever \<open>reps\<close>) with \<open>i < 2 ^ 50\<close>, the new interval is
  that of exact arithmetic: for \<open>hard\<close> it is 1 if \<open>i = 0\<close> and otherwise the larger of
  1 and \<open>6 i / 5\<close> rounded half up; for \<open>good\<close> it is 1 if \<open>i = 0\<close> and otherwise the
  larger of 1 and \<open>5 i / 2\<close> rounded half up; for \<open>easy\<close> it is 2 if \<open>i = 0\<close> and
  otherwise the larger of 2 and \<open>3 i\<close>. The new ease is computed in binary64 numbers,
  for every \<open>i\<close>: for \<open>hard\<close> the larger of the literal \<open>1.3\<close> and the rounding of the
  ease less the literal \<open>0.15\<close>; for \<open>good\<close> the ease unchanged; for \<open>easy\<close> the
  rounding of the ease plus the literal \<open>0.15\<close>, with no upper clamp. For a finite
  ease \<open>e\<close> with \<open>1 \<le> e < 2 ^ 1022\<close> the new ease is within \<open>e / 2 ^ 52\<close> of the exact
  \<open>max (13 / 10) (e - 15 / 100)\<close> for \<open>hard\<close> and of \<open>e + 15 / 100\<close> for \<open>easy\<close>.
\<close>

theorem transition_branches:
  assumes "intervalDays state = Some (Fin (of_int i))" "0 \<le> i"
    and "ease state = Some x"
  shows "(i < 2 ^ 50 \<longrightarrow>
      intervalDays (nextState (nextSrs host state Hard)) =
        Some (Fin (of_int (if i = 0 then 1 else max 1 \<lfloor>(of_int i * 6 / 5 :: rat) + 1 / 2\<rfloor>))) \<and>
      intervalDays (nextState (nextSrs host state Good)) =
        Some (Fin (of_int (if i = 0 then 1 else max 1 \<lfloor>(of_int i * 5 / 2 :: rat) + 1 / 2\<rfloor>))) \<and>
      intervalDays (nextState (nextSrs host state Easy)) =
        Some (Fin (of_int (if i = 0 then 2 else max 2 (3 * i))))) \<and>
    ease (nextState (nextSrs host state Hard)) =
      Some (case x of
          NaN \<Rightarrow> NaN
        | PosInf \<Rightarrow> PosInf
        | NegInf \<Rightarrow> Fin (5854679515581645 / 4503599627370496)
        | NegZero \<Rightarrow> Fin (5854679515581645 / 4503599627370496)
        | Fin e \<Rightarrow>
            (case fl (e - 5404319552844595 / 36028797018963968) of
               NaN \<Rightarrow> NaN
             | PosInf \<Rightarrow> PosInf
             | NegInf \<Rightarrow> Fin (5854679515581645 / 4503599627370496)
             | NegZero \<Rightarrow> Fin (5854679515581645 / 4503599627370496)
             | Fin r \<Rightarrow> Fin (max (5854679515581645 / 4503599627370496) r))) \<and>
    ease (nextState (nextSrs host state Good)) = Some x \<and>
    ease (nextState (nextSrs host state Easy)) =
      Some (case x of
          NaN \<Rightarrow> NaN
        | PosInf \<Rightarrow> PosInf
        | NegInf \<Rightarrow> NegInf
        | NegZero \<Rightarrow> Fin (5404319552844595 / 36028797018963968)
        | Fin e \<Rightarrow> fl (e + 5404319552844595 / 36028797018963968)) \<and>
    (\<forall>e. x = Fin e \<and> 1 \<le> e \<and> e < 2 powi 1022 \<longrightarrow>
      (\<exists>r. ease (nextState (nextSrs host state Hard)) = Some (Fin r) \<and>
         \<bar>r - max (13 / 10) (e - 15 / 100)\<bar> \<le> e / 2 ^ 52) \<and>
      (\<exists>r. ease (nextState (nextSrs host state Easy)) = Some (Fin r) \<and>
         \<bar>r - (e + 15 / 100)\<bar> \<le> e / 2 ^ 52))"
proof -
  have i: "norm_intervalDays state = Fin (of_int i)"
    using assms(1,2) by (rule norm_intervalDays_int)
  have x: "norm_ease state = x"
    using assms(3) by (simp add: norm_ease_def)
  have hard: "ease (nextState (nextSrs host state Hard)) = Some (Math_max lit_1_3 (js_sub x lit_0_15))"
    and good: "ease (nextState (nextSrs host state Good)) = Some x"
    and easy: "ease (nextState (nextSrs host state Easy)) = Some (js_add x lit_0_15)"
    by (simp_all add: ease_of_nextSrs x)
  show ?thesis
  proof (intro conjI impI allI)
    assume small: "i < 2 ^ 50"
    show "intervalDays (nextState (nextSrs host state Hard)) =
        Some (Fin (of_int (if i = 0 then 1 else max 1 \<lfloor>(of_int i * 6 / 5 :: rat) + 1 / 2\<rfloor>)))"
      using i assms(2) small by (rule grow_exact(1))
    show "intervalDays (nextState (nextSrs host state Good)) =
        Some (Fin (of_int (if i = 0 then 1 else max 1 \<lfloor>(of_int i * 5 / 2 :: rat) + 1 / 2\<rfloor>)))"
      using i assms(2) small by (rule grow_exact(2))
    show "intervalDays (nextState (nextSrs host state Easy)) =
        Some (Fin (of_int (if i = 0 then 2 else max 2 (3 * i))))"
      using i assms(2) small by (rule grow_exact(3))
  next
    show "ease (nextState (nextSrs host state Hard)) =
      Some (case x of
          NaN \<Rightarrow> NaN
        | PosInf \<Rightarrow> PosInf
        | NegInf \<Rightarrow> Fin (5854679515581645 / 4503599627370496)
        | NegZero \<Rightarrow> Fin (5854679515581645 / 4503599627370496)
        | Fin e \<Rightarrow>
            (case fl (e - 5404319552844595 / 36028797018963968) of
               NaN \<Rightarrow> NaN
             | PosInf \<Rightarrow> PosInf
             | NegInf \<Rightarrow> Fin (5854679515581645 / 4503599627370496)
             | NegZero \<Rightarrow> Fin (5854679515581645 / 4503599627370496)
             | Fin r \<Rightarrow> Fin (max (5854679515581645 / 4503599627370496) r)))"
      unfolding hard ease_hard_cases by (rule refl)
  next
    show "ease (nextState (nextSrs host state Good)) = Some x" by (rule good)
  next
    show "ease (nextState (nextSrs host state Easy)) =
      Some (case x of
          NaN \<Rightarrow> NaN
        | PosInf \<Rightarrow> PosInf
        | NegInf \<Rightarrow> NegInf
        | NegZero \<Rightarrow> Fin (5404319552844595 / 36028797018963968)
        | Fin e \<Rightarrow> fl (e + 5404319552844595 / 36028797018963968))"
      unfolding easy ease_easy_cases by (rule refl)
  next
    fix e assume "x = Fin e \<and> 1 \<le> e \<and> e < 2 powi 1022"
    then have e: "x = Fin e" "1 \<le> e" "e < 2 powi 1022" by simp_all
    from ease_hard_close [OF e(2,3)]
    show "\<exists>r. ease (nextState (nextSrs host state Hard)) = Some (Fin r) \<and>
         \<bar>r - max (13 / 10) (e - 15 / 100)\<bar> \<le> e / 2 ^ 52"
      by (simp add: hard e(1))
    from ease_easy_close [OF e(2,3)]
    show "\<exists>r. ease (nextState (nextSrs host state Easy)) = Some (Fin r) \<and>
         \<bar>r - (e + 15 / 100)\<bar> \<le> e / 2 ^ 52"
      by (simp add: easy e(1))
  qed
qed

theorem transition_branches_witness:
  "intervalDays \<lparr>intervalDays = Some (Fin (of_int 4)), ease = Some (Fin (5 / 2)), reps = Some (Fin 2)\<rparr>
     = Some (Fin (of_int 4)) \<and> (0::int) \<le> 4 \<and> (4::int) < 2 ^ 50 \<and>
   ease \<lparr>intervalDays = Some (Fin (of_int 4)), ease = Some (Fin (5 / 2)), reps = Some (Fin 2)\<rparr>
     = Some (Fin (5 / 2)) \<and> (1::rat) \<le> 5 / 2 \<and> (5 / 2 :: rat) < 2 powi 1022 \<and>
   intervalDays (nextState (nextSrs (utc_host 0)
     \<lparr>intervalDays = Some (Fin (of_int 4)), ease = Some (Fin (5 / 2)), reps = Some (Fin 2)\<rparr> Hard))
     = Some (Fin 5) \<and>
   intervalDays (nextState (nextSrs (utc_host 0)
     \<lparr>intervalDays = Some (Fin (of_int 4)), ease = Some (Fin (5 / 2)), reps = Some (Fin 2)\<rparr> Good))
     = Some (Fin 10) \<and>
   intervalDays (nextState (nextSrs (utc_host 0)
     \<lparr>intervalDays = Some (Fin (of_int 4)), ease = Some (Fin (5 / 2)), reps = Some (Fin 2)\<rparr> Easy))
     = Some (Fin 12) \<and>
   ease (nextState (nextSrs (utc_host 0)
     \<lparr>intervalDays = Some (Fin (of_int 4)), ease = Some (Fin (5 / 2)), reps = Some (Fin 2)\<rparr> Hard))
     = Some (Fin (5291729562160333 / 2251799813685248)) \<and>
   ease (nextState (nextSrs (utc_host 0)
     \<lparr>intervalDays = Some (Fin (of_int 4)), ease = Some (Fin (5 / 2)), reps = Some (Fin 2)\<rparr> Good))
     = Some (Fin (5 / 2)) \<and>
   ease (nextState (nextSrs (utc_host 0)
     \<lparr>intervalDays = Some (Fin (of_int 4)), ease = Some (Fin (5 / 2)), reps = Some (Fin 2)\<rparr> Easy))
     = Some (Fin (5967269506265907 / 2251799813685248)) \<and>
   \<bar>5291729562160333 / 2251799813685248 - max (13 / 10) (5 / 2 - 15 / 100 :: rat)\<bar> \<le> 5 / 2 / 2 ^ 52 \<and>
   \<bar>5967269506265907 / 2251799813685248 - (5 / 2 + 15 / 100 :: rat)\<bar> \<le> 5 / 2 / 2 ^ 52"
proof -
  let ?s = "\<lparr>intervalDays = Some (Fin (of_int 4)), ease = Some (Fin (5 / 2)), reps = Some (Fin 2)\<rparr>"
  have h: "intervalDays ?s = Some (Fin (of_int 4))" "(0::int) \<le> 4" "ease ?s = Some (Fin (5 / 2))"
    by simp_all
  have small: "(4::int) < 2 ^ 50" by simp
  have e: "(1::rat) \<le> 5 / 2" "(5 / 2 :: rat) < 2 powi 1022"
    using powi2_mono [of 2 1022] by simp_all
  have v: "fl (5 / 2 - 5404319552844595 / 36028797018963968) = Fin (5291729562160333 / 2251799813685248)"
    "fl (5 / 2 + 5404319552844595 / 36028797018963968) = Fin (5967269506265907 / 2251799813685248)"
    by code_simp+
  have f: "\<lfloor>53 / 10 :: rat\<rfloor> = 5" "\<lfloor>21 / 2 :: rat\<rfloor> = 10"
    by code_simp+
  have a: "\<bar>5291729562160333 / 2251799813685248 - max (13 / 10) (5 / 2 - 15 / 100 :: rat)\<bar> \<le> 5 / 2 / 2 ^ 52"
    "\<bar>5967269506265907 / 2251799813685248 - (5 / 2 + 15 / 100 :: rat)\<bar> \<le> 5 / 2 / 2 ^ 52"
    by simp_all
  from transition_branches [OF h, of "utc_host 0"] small e v f a
  show ?thesis by simp
qed

text \<open>
  The claim as stated fails for long intervals, where the product is rounded to a
  binary64 number before \<open>Math.round\<close>: the new interval is then off by one from
  \<open>round(i * 1.2)\<close>, \<open>round(i * 2.5)\<close> and \<open>i * 3\<close>.
\<close>

theorem branches_inexact_for_long_intervals:
  "intervalDays (nextState (nextSrs (utc_host 0)
     \<lparr>intervalDays = Some (Fin 2251799813685252), ease = Some lit_2_5, reps = Some (Fin 1)\<rparr> Hard))
     = Some (Fin 2702159776422303) \<and>
   max 1 \<lfloor>(2251799813685252 * 6 / 5 :: rat) + 1 / 2\<rfloor> = 2702159776422302 \<and>
   intervalDays (nextState (nextSrs (utc_host 0)
     \<lparr>intervalDays = Some (Fin 1801446354794065), ease = Some lit_2_5, reps = Some (Fin 1)\<rparr> Good))
     = Some (Fin 4503615886985162) \<and>
   max 1 \<lfloor>(1801446354794065 * 5 / 2 :: rat) + 1 / 2\<rfloor> = 4503615886985163 \<and>
   intervalDays (nextState (nextSrs (utc_host 0)
     \<lparr>intervalDays = Some (Fin 3002472218237207), ease = Some lit_2_5, reps = Some (Fin 1)\<rparr> Easy))
     = Some (Fin 9007416654711620) \<and>
   max 2 (3 * 3002472218237207) = (9007416654711621 :: int)"
  by code_simp

subsection \<open>The repetition count of a review\<close>

text \<open>
  C3, as amended. On a normalised state with \<open>reps = n\<close>: a rating other than
  \<open>again\<close> gives \<open>reps = n + 1\<close> when \<open>n < 2 ^ 53\<close>; \<open>again\<close> gives \<open>reps = 0\<close>;
  and for every \<open>n\<close> that is a binary64 value, a rating other than \<open>again\<close> never
  gives a count below \<open>n\<close>.
\<close>

theorem reps_increment:
  assumes "reps state = Some (Fin (of_int n))" "0 \<le> n"
  shows "(n < 2 ^ 53 \<and> rating \<noteq> Again \<longrightarrow>
      reps (nextState (nextSrs host state rating)) = Some (Fin (of_int (n + 1)))) \<and>
    reps (nextState (nextSrs host state Again)) = Some (Fin 0) \<and>
    (is_double (Fin (of_int n)) \<and> rating \<noteq> Again \<longrightarrow>
      (\<exists>r. reps (nextState (nextSrs host state rating)) = Some r \<and> js_le (Fin (of_int n)) r))"
  using reps_plus_one [OF assms, where rating = rating and host = host]
    reps_not_lower [OF assms, where rating = rating and host = host]
  by (simp add: reps_of_nextSrs)

theorem reps_increment_witness:
  "reps \<lparr>intervalDays = Some (Fin 10), ease = Some lit_2_5, reps = Some (Fin (of_int 5))\<rparr> = Some (Fin (of_int 5)) \<and>
   (0::int) \<le> 5 \<and> is_double (Fin (of_int 5)) \<and> (5::int) < 2 ^ 53 \<and> Good \<noteq> Again \<and>
   reps (nextState (nextSrs (utc_host 0)
     \<lparr>intervalDays = Some (Fin 10), ease = Some lit_2_5, reps = Some (Fin (of_int 5))\<rparr> Good)) = Some (Fin 6)"
proof -
  have d: "is_double (Fin (of_int 5))"
    using fl_exact_int [of 5] by (simp add: is_double_def)
  from reps_increment [of
      "\<lparr>intervalDays = Some (Fin 10), ease = Some lit_2_5, reps = Some (Fin (of_int 5))\<rparr>"
      5 Good "utc_host 0"] d
  show ?thesis by simp
qed

text \<open>
  The claim as stated fails where binary64 has no odd whole numbers: at
  \<open>reps = 2 ^ 53\<close> the sum \<open>reps + 1\<close> rounds back to \<open>2 ^ 53\<close>.
\<close>

theorem reps_stuck_at_2_53:
  "reps (nextState (nextSrs (utc_host 0)
     \<lparr>intervalDays = Some (Fin 10), ease = Some lit_2_5, reps = Some (Fin 9007199254740992)\<rparr> Good))
   = Some (Fin 9007199254740992)"
  by code_simp

subsection \<open>The floor of the ease\<close>

text \<open>
  C4. A state whose ease is at least \<open>1.3\<close> has, after any rating, an ease of at least
  \<open>1.3\<close>; and so has the state after any sequence of ratings from the initial state.
\<close>

theorem ease_never_below_floor:
  "(js_le lit_1_3 (norm_ease state) \<longrightarrow>
      js_le lit_1_3 (norm_ease (nextState (nextSrs host state rating)))) \<and>
   js_le lit_1_3 (norm_ease (review_all initialSrsState rs))"
  using ease_floor_step [of state host rating]
    ease_floor_review_all [OF ease_floor_initial, of rs]
  by simp

theorem ease_never_below_floor_witness:
  "js_le lit_1_3 (norm_ease \<lparr>intervalDays = Some (Fin 3), ease = Some lit_1_3, reps = Some (Fin 2)\<rparr>) \<and>
   js_le lit_1_3 (norm_ease (nextState (nextSrs (utc_host 0)
     \<lparr>intervalDays = Some (Fin 3), ease = Some lit_1_3, reps = Some (Fin 2)\<rparr> Hard))) \<and>
   norm_ease (nextState (nextSrs (utc_host 0)
     \<lparr>intervalDays = Some (Fin 3), ease = Some lit_1_3, reps = Some (Fin 2)\<rparr> Hard)) = lit_1_3 \<and>
   js_le lit_1_3 (norm_ease (review_all initialSrsState
     [(utc_host 0, Again), (utc_host 86400000, Again), (utc_host 172800000, Hard)]))"
proof -
  have h: "js_le lit_1_3 (norm_ease \<lparr>intervalDays = Some (Fin 3), ease = Some lit_1_3, reps = Some (Fin 2)\<rparr>)"
    by (simp add: lit_1_3_eq)
  have v: "norm_ease (nextState (nextSrs (utc_host 0)
     \<lparr>intervalDays = Some (Fin 3), ease = Some lit_1_3, reps = Some (Fin 2)\<rparr> Hard)) = lit_1_3"
    by code_simp
  from ease_never_below_floor [of
      "\<lparr>intervalDays = Some (Fin 3), ease = Some lit_1_3, reps = Some (Fin 2)\<rparr>" "utc_host 0" Hard
      "[(utc_host 0, Again), (utc_host 86400000, Again), (utc_host 172800000, Hard)]"] h v
  show ?thesis by blast
qed

subsection \<open>The normalisation of a stored state\<close>

text \<open>
  C5, as amended. The function gives the same result on a stored state and on that
  state normalised: a stored \<open>intervalDays\<close> or \<open>reps\<close> that is finite is floored and
  clamped at 0 (a negative or fractional value becomes a whole number \<open>\<ge> 0\<close>), a
  missing one and \<open>-\<infinity>\<close> become 0, while NaN and \<open>+\<infinity>\<close> stay as they are; a missing
  ease becomes 2.5, while an ease that is a number, NaN and the infinities included, is
  used as it is. So, for a finite stored interval \<open>q\<close> with \<open>j = max 0 \<lfloor>q\<rfloor>\<close> below
  \<open>2 ^ 50\<close>, the new interval is the one that the three branches give for \<open>j\<close>; for a
  finite stored count \<open>q\<close> with \<open>max 0 \<lfloor>q\<rfloor>\<close> below \<open>2 ^ 53\<close>, a rating other than
  \<open>again\<close> gives \<open>max 0 \<lfloor>q\<rfloor> + 1\<close>; and \<open>good\<close> returns the stored ease, or 2.5 when
  it is missing. In particular \<open>good\<close> on \<open>intervalDays = -5\<close> gives
  \<open>intervalDays = 1\<close>.
\<close>

theorem normalisation:
  "nextSrs host state rating = nextSrs host (normalised state) rating \<and>
   (\<forall>q. intervalDays state = Some (Fin q) \<and> max 0 \<lfloor>q\<rfloor> < 2 ^ 50 \<longrightarrow>
      intervalDays (nextState (nextSrs host state Hard)) =
        Some (Fin (of_int (if max 0 \<lfloor>q\<rfloor> = 0 then 1
                           else max 1 \<lfloor>(of_int (max 0 \<lfloor>q\<rfloor>) * 6 / 5 :: rat) + 1 / 2\<rfloor>))) \<and>
      intervalDays (nextState (nextSrs host state Good)) =
        Some (Fin (of_int (if max 0 \<lfloor>q\<rfloor> = 0 then 1
                           else max 1 \<lfloor>(of_int (max 0 \<lfloor>q\<rfloor>) * 5 / 2 :: rat) + 1 / 2\<rfloor>))) \<and>
      intervalDays (nextState (nextSrs host state Easy)) =
        Some (Fin (of_int (if max 0 \<lfloor>q\<rfloor> = 0 then 2 else max 2 (3 * max 0 \<lfloor>q\<rfloor>))))) \<and>
   (intervalDays state = None \<or> intervalDays state = Some NegInf \<or>
    intervalDays state = Some NegZero \<longrightarrow>
      intervalDays (nextState (nextSrs host state Hard)) = Some (Fin 1) \<and>
      intervalDays (nextState (nextSrs host state Good)) = Some (Fin 1) \<and>
      intervalDays (nextState (nextSrs host state Easy)) = Some (Fin 2)) \<and>
   (\<forall>q. reps state = Some (Fin q) \<and> max 0 \<lfloor>q\<rfloor> < 2 ^ 53 \<and> rating \<noteq> Again \<longrightarrow>
      reps (nextState (nextSrs host state rating)) = Some (Fin (of_int (max 0 \<lfloor>q\<rfloor> + 1)))) \<and>
   ((reps state = None \<or> reps state = Some NegInf \<or> reps state = Some NegZero) \<and>
    rating \<noteq> Again \<longrightarrow>
      reps (nextState (nextSrs host state rating)) = Some (Fin 1)) \<and>
   ease (nextState (nextSrs host state Good)) =
     Some (case ease state of None \<Rightarrow> Fin (5 / 2) | Some x \<Rightarrow> x) \<and>
   intervalDays (nextState (nextSrs host (state\<lparr>intervalDays := Some (Fin (- 5))\<rparr>) Good)) = Some (Fin 1)"
proof (intro conjI allI impI)
  show "nextSrs host state rating = nextSrs host (normalised state) rating"
    by (simp add: nextSrs_normalised)
next
  fix q assume "intervalDays state = Some (Fin q) \<and> max 0 \<lfloor>q\<rfloor> < 2 ^ 50"
  then have j: "norm_intervalDays state = Fin (of_int (max 0 \<lfloor>q\<rfloor>))" "0 \<le> max 0 \<lfloor>q\<rfloor>"
      "max 0 \<lfloor>q\<rfloor> < 2 ^ 50"
    by (simp_all add: norm_intervalDays_Fin)
  show "intervalDays (nextState (nextSrs host state Hard)) =
        Some (Fin (of_int (if max 0 \<lfloor>q\<rfloor> = 0 then 1
                           else max 1 \<lfloor>(of_int (max 0 \<lfloor>q\<rfloor>) * 6 / 5 :: rat) + 1 / 2\<rfloor>)))"
    using j by (rule grow_exact(1))
  show "intervalDays (nextState (nextSrs host state Good)) =
        Some (Fin (of_int (if max 0 \<lfloor>q\<rfloor> = 0 then 1
                           else max 1 \<lfloor>(of_int (max 0 \<lfloor>q\<rfloor>) * 5 / 2 :: rat) + 1 / 2\<rfloor>)))"
    using j by (rule grow_exact(2))
  show "intervalDays (nextState (nextSrs host state Easy)) =
        Some (Fin (of_int (if max 0 \<lfloor>q\<rfloor> = 0 then 2 else max 2 (3 * max 0 \<lfloor>q\<rfloor>))))"
    using j by (rule grow_exact(3))
next
  assume "intervalDays state = None \<or> intervalDays state = Some NegInf \<or>
    intervalDays state = Some NegZero"
  then have z: "norm_intervalDays state = Fin (of_int 0)" by (rule norm_intervalDays_absent)
  from grow_exact(1) [OF z, of host]
  show "intervalDays (nextState (nextSrs host state Hard)) = Some (Fin 1)" by simp
  from grow_exact(2) [OF z, of host]
  show "intervalDays (nextState (nextSrs host state Good)) = Some (Fin 1)" by simp
  from grow_exact(3) [OF z, of host]
  show "intervalDays (nextState (nextSrs host state Easy)) = Some (Fin 2)" by simp
next
  fix q assume "reps state = Some (Fin q) \<and> max 0 \<lfloor>q\<rfloor> < 2 ^ 53 \<and> rating \<noteq> Again"
  then have "norm_reps state = Fin (of_int (max 0 \<lfloor>q\<rfloor>))" "0 \<le> max 0 \<lfloor>q\<rfloor>"
      "max 0 \<lfloor>q\<rfloor> < 2 ^ 53" "rating \<noteq> Again"
    by (simp_all add: norm_reps_Fin)
  then show "reps (nextState (nextSrs host state rating)) = Some (Fin (of_int (max 0 \<lfloor>q\<rfloor> + 1)))"
    by (rule reps_plus_one_norm)
next
  assume a: "(reps state = None \<or> reps state = Some NegInf \<or> reps state = Some NegZero) \<and>
    rating \<noteq> Again"
  then have "norm_reps state = Fin (of_int 0)" by (intro norm_reps_absent) simp
  from reps_plus_one_norm [OF this, of rating host] a
  show "reps (nextState (nextSrs host state rating)) = Some (Fin 1)" by simp
next
  show "ease (nextState (nextSrs host state Good)) =
     Some (case ease state of None \<Rightarrow> Fin (5 / 2) | Some x \<Rightarrow> x)"
    by (simp add: ease_of_nextSrs norm_ease_def lit_2_5_eq split: option.splits)
next
  show "intervalDays (nextState (nextSrs host (state\<lparr>intervalDays := Some (Fin (- 5))\<rparr>) Good)) = Some (Fin 1)"
    by (simp add: norm_intervalDays_def normalise_count intervalDays_of_nextSrs)
qed

theorem normalisation_witness:
  "intervalDays \<lparr>intervalDays = Some (Fin (7 / 2)), ease = None, reps = Some (Fin (- 3))\<rparr> =
     Some (Fin (7 / 2)) \<and> max 0 \<lfloor>7 / 2 :: rat\<rfloor> < 2 ^ 50 \<and>
   reps \<lparr>intervalDays = Some (Fin (7 / 2)), ease = None, reps = Some (Fin (- 3))\<rparr> =
     Some (Fin (- 3)) \<and> max 0 \<lfloor>- 3 :: rat\<rfloor> < 2 ^ 53 \<and> Easy \<noteq> Again \<and>
   normalised \<lparr>intervalDays = Some (Fin (7 / 2)), ease = None, reps = Some (Fin (- 3))\<rparr> =
     \<lparr>intervalDays = Some (Fin 3), ease = Some (Fin (5 / 2)), reps = Some (Fin 0)\<rparr> \<and>
   nextSrs (utc_host 0) \<lparr>intervalDays = Some (Fin (7 / 2)), ease = None, reps = Some (Fin (- 3))\<rparr> Easy =
     nextSrs (utc_host 0) \<lparr>intervalDays = Some (Fin 3), ease = Some (Fin (5 / 2)), reps = Some (Fin 0)\<rparr> Easy \<and>
   intervalDays (nextState (nextSrs (utc_host 0)
     \<lparr>intervalDays = Some (Fin (7 / 2)), ease = None, reps = Some (Fin (- 3))\<rparr> Hard)) = Some (Fin 4) \<and>
   intervalDays (nextState (nextSrs (utc_host 0)
     \<lparr>intervalDays = Some (Fin (7 / 2)), ease = None, reps = Some (Fin (- 3))\<rparr> Good)) = Some (Fin 8) \<and>
   intervalDays (nextState (nextSrs (utc_host 0)
     \<lparr>intervalDays = Some (Fin (7 / 2)), ease = None, reps = Some (Fin (- 3))\<rparr> Easy)) = Some (Fin 9) \<and>
   reps (nextState (nextSrs (utc_host 0)
     \<lparr>intervalDays = Some (Fin (7 / 2)), ease = None, reps = Some (Fin (- 3))\<rparr> Easy)) = Some (Fin 1) \<and>
   ease (nextState (nextSrs (utc_host 0)
     \<lparr>intervalDays = Some (Fin (7 / 2)), ease = None, reps = Some (Fin (- 3))\<rparr> Good)) = Some (Fin (5 / 2)) \<and>
   intervalDays \<lparr>intervalDays = None, ease = Some (Fin 2), reps = Some NegInf\<rparr> = None \<and>
   reps \<lparr>intervalDays = None, ease = Some (Fin 2), reps = Some NegInf\<rparr> = Some NegInf \<and>
   Good \<noteq> Again \<and>
   intervalDays (nextState (nextSrs (utc_host 0)
     \<lparr>intervalDays = None, ease = Some (Fin 2), reps = Some NegInf\<rparr> Hard)) = Some (Fin 1) \<and>
   intervalDays (nextState (nextSrs (utc_host 0)
     \<lparr>intervalDays = None, ease = Some (Fin 2), reps = Some NegInf\<rparr> Good)) = Some (Fin 1) \<and>
   intervalDays (nextState (nextSrs (utc_host 0)
     \<lparr>intervalDays = None, ease = Some (Fin 2), reps = Some NegInf\<rparr> Easy)) = Some (Fin 2) \<and>
   reps (nextState (nextSrs (utc_host 0)
     \<lparr>intervalDays = None, ease = Some (Fin 2), reps = Some NegInf\<rparr> Good)) = Some (Fin 1) \<and>
   ease (nextState (nextSrs (utc_host 0)
     \<lparr>intervalDays = None, ease = Some (Fin 2), reps = Some NegInf\<rparr> Good)) = Some (Fin 2)"
proof -
  let ?s = "\<lparr>intervalDays = Some (Fin (7 / 2)), ease = None, reps = Some (Fin (- 3))\<rparr>"
  let ?t = "\<lparr>intervalDays = None, ease = Some (Fin 2), reps = Some NegInf\<rparr>"
  have f: "\<lfloor>7 / 2 :: rat\<rfloor> = 3" "\<lfloor>41 / 10 :: rat\<rfloor> = 4"
    by code_simp+
  have n: "normalised ?s =
      \<lparr>intervalDays = Some (Fin 3), ease = Some (Fin (5 / 2)), reps = Some (Fin 0)\<rparr>"
    by (simp add: normalised_def normalised_count_def f)
  have h: "intervalDays ?s = Some (Fin (7 / 2)) \<and> max 0 \<lfloor>7 / 2 :: rat\<rfloor> < 2 ^ 50"
    "reps ?s = Some (Fin (- 3)) \<and> max 0 \<lfloor>- 3 :: rat\<rfloor> < 2 ^ 53 \<and> Easy \<noteq> Again"
    by (simp_all add: f)
  have g: "intervalDays ?t = None \<or> intervalDays ?t = Some NegInf \<or> intervalDays ?t = Some NegZero"
    "(reps ?t = None \<or> reps ?t = Some NegInf \<or> reps ?t = Some NegZero) \<and> Good \<noteq> Again"
    by simp_all
  note s = normalisation [of "utc_host 0" ?s Easy]
  note t = normalisation [of "utc_host 0" ?t Good]
  from s n have "nextSrs (utc_host 0) ?s Easy =
      nextSrs (utc_host 0) \<lparr>intervalDays = Some (Fin 3), ease = Some (Fin (5 / 2)), reps = Some (Fin 0)\<rparr> Easy"
    by simp
  moreover from s h(1) have "intervalDays (nextState (nextSrs (utc_host 0) ?s Hard)) =
        Some (Fin (of_int (if max 0 \<lfloor>7 / 2 :: rat\<rfloor> = 0 then 1
                           else max 1 \<lfloor>(of_int (max 0 \<lfloor>7 / 2 :: rat\<rfloor>) * 6 / 5 :: rat) + 1 / 2\<rfloor>)))"
    and "intervalDays (nextState (nextSrs (utc_host 0) ?s Good)) =
        Some (Fin (of_int (if max 0 \<lfloor>7 / 2 :: rat\<rfloor> = 0 then 1
                           else max 1 \<lfloor>(of_int (max 0 \<lfloor>7 / 2 :: rat\<rfloor>) * 5 / 2 :: rat) + 1 / 2\<rfloor>)))"
    and "intervalDays (nextState (nextSrs (utc_host 0) ?s Easy)) =
        Some (Fin (of_int (if max 0 \<lfloor>7 / 2 :: rat\<rfloor> = 0 then 2 else max 2 (3 * max 0 \<lfloor>7 / 2 :: rat\<rfloor>))))"
    by blast+
  then have "intervalDays (nextState (nextSrs (utc_host 0) ?s Hard)) = Some (Fin 4)"
    and "intervalDays (nextState (nextSrs (utc_host 0) ?s Good)) = Some (Fin 8)"
    and "intervalDays (nextState (nextSrs (utc_host 0) ?s Easy)) = Some (Fin 9)"
    using f by simp_all
  moreover from s h(2) have "reps (nextState (nextSrs (utc_host 0) ?s Easy)) =
      Some (Fin (of_int (max 0 \<lfloor>- 3 :: rat\<rfloor> + 1)))"
    by blast
  then have "reps (nextState (nextSrs (utc_host 0) ?s Easy)) = Some (Fin 1)" by simp
  moreover from s have "ease (nextState (nextSrs (utc_host 0) ?s Good)) =
      Some (case ease ?s of None \<Rightarrow> Fin (5 / 2) | Some x \<Rightarrow> x)"
    by blast
  then have "ease (nextState (nextSrs (utc_host 0) ?s Good)) = Some (Fin (5 / 2))" by simp
  moreover from t g(1) have "intervalDays (nextState (nextSrs (utc_host 0) ?t Hard)) = Some (Fin 1)"
    and "intervalDays (nextState (nextSrs (utc_host 0) ?t Good)) = Some (Fin 1)"
    and "intervalDays (nextState (nextSrs (utc_host 0) ?t Easy)) = Some (Fin 2)"
    by blast+
  moreover from t g(2) have "reps (nextState (nextSrs (utc_host 0) ?t Good)) = Some (Fin 1)"
    by blast
  moreover from t have "ease (nextState (nextSrs (utc_host 0) ?t Good)) =
      Some (case ease ?t of None \<Rightarrow> Fin (5 / 2) | Some x \<Rightarrow> x)"
    by blast
  then have "ease (nextState (nextSrs (utc_host 0) ?t Good)) = Some (Fin 2)" by simp
  ultimately show ?thesis using n h g by (intro conjI) simp_all
qed

text \<open>
  The claim as stated fails on the values that are numbers but not finite: a NaN ease
  and an infinite ease are kept, not replaced by 2.5, and a NaN interval or an
  infinite count is not made a whole number.
\<close>

theorem NaN_is_not_normalised:
  "nextState (nextSrs (utc_host 0)
     \<lparr>intervalDays = Some NaN, ease = Some NaN, reps = Some PosInf\<rparr> Good) =
   \<lparr>intervalDays = Some NaN, ease = Some NaN, reps = Some PosInf\<rparr> \<and>
   ease (nextState (nextSrs (utc_host 0)
     \<lparr>intervalDays = Some (Fin 1), ease = Some PosInf, reps = Some (Fin 1)\<rparr> Good)) = Some PosInf"
  by code_simp

subsection \<open>The due date\<close>

text \<open>
  C6, as amended. When the new \<open>intervalDays\<close> is a whole number \<open>k\<close> (at most
  \<open>2 ^ 52\<close>), and the local time \<open>k\<close> days after the local time of \<open>now\<close> exists in
  the host's zone and is within the range of a \<open>Date\<close>, then \<open>dueAt\<close> is that local
  time: its local day number is that of \<open>now\<close> plus \<open>k\<close>, and its local time of day is
  that of \<open>now\<close>. The year, month and day of the month follow from the day number
  by the calendar functions; the witness crosses from 30 January to 2 February.
\<close>

theorem dueAt_calendar_days:
  assumes "\<bar>clock host\<bar> \<le> 8640000000000000"
    and "intervalDays (nextState (nextSrs host state rating)) = Some (Fin (of_int k))"
    and "0 \<le> k" "k \<le> 2 ^ 52"
    and "due = UTC host (LocalTime host (clock host) + k * msPerDay)"
    and "\<bar>due\<bar> \<le> 8640000000000000"
    and "LocalTime host due = LocalTime host (clock host) + k * msPerDay"
  shows "dueAt (nextSrs host state rating) = Date due \<and>
    Day (LocalTime host due) = Day (LocalTime host (clock host)) + k \<and>
    TimeWithinDay (LocalTime host due) = TimeWithinDay (LocalTime host (clock host))"
  using assms by (rule dueAt_calendar)

theorem dueAt_calendar_days_witness:
  "\<bar>clock (utc_host 1706608800000)\<bar> \<le> 8640000000000000 \<and>
   intervalDays (nextState (nextSrs (utc_host 1706608800000)
     \<lparr>intervalDays = Some (Fin 1), ease = Some lit_2_5, reps = Some (Fin 1)\<rparr> Good)) = Some (Fin (of_int 3)) \<and>
   (1706868000000::int) =
     UTC (utc_host 1706608800000)
       (LocalTime (utc_host 1706608800000) (clock (utc_host 1706608800000)) + 3 * msPerDay) \<and>
   LocalTime (utc_host 1706608800000) 1706868000000 =
     LocalTime (utc_host 1706608800000) (clock (utc_host 1706608800000)) + 3 * msPerDay \<and>
   dueAt (nextSrs (utc_host 1706608800000)
     \<lparr>intervalDays = Some (Fin 1), ease = Some lit_2_5, reps = Some (Fin 1)\<rparr> Good) = Date 1706868000000 \<and>
   YearFromTime 1706608800000 = 2024 \<and> MonthFromTime 1706608800000 = 0 \<and>
   DateFromTime 1706608800000 = 30 \<and>
   YearFromTime 1706868000000 = 2024 \<and> MonthFromTime 1706868000000 = 1 \<and>
   DateFromTime 1706868000000 = 2 \<and>
   TimeWithinDay 1706868000000 = TimeWithinDay 1706608800000"
proof -
  have h1: "\<bar>clock (utc_host 1706608800000)\<bar> \<le> 8640000000000000"
    by (simp add: utc_host_def)
  have h2: "intervalDays (nextState (nextSrs (utc_host 1706608800000)
     \<lparr>intervalDays = Some (Fin 1), ease = Some lit_2_5, reps = Some (Fin 1)\<rparr> Good)) = Some (Fin (of_int 3))"
    by code_simp
  have h3: "(0::int) \<le> 3" "(3::int) \<le> 2 ^ 52" by simp_all
  have h4: "(1706868000000::int) =
     UTC (utc_host 1706608800000)
       (LocalTime (utc_host 1706608800000) (clock (utc_host 1706608800000)) + 3 * msPerDay)"
    by (simp add: UTC_def LocalTime_def utc_host_def msPerDay_def)
  have h5: "\<bar>1706868000000::int\<bar> \<le> 8640000000000000" by simp
  have h6: "LocalTime (utc_host 1706608800000) 1706868000000 =
     LocalTime (utc_host 1706608800000) (clock (utc_host 1706608800000)) + 3 * msPerDay"
    by (simp add: UTC_def LocalTime_def utc_host_def msPerDay_def)
  have cal: "YearFromTime 1706608800000 = 2024 \<and> MonthFromTime 1706608800000 = 0 \<and>
   DateFromTime 1706608800000 = 30 \<and>
   YearFromTime 1706868000000 = 2024 \<and> MonthFromTime 1706868000000 = 1 \<and>
   DateFromTime 1706868000000 = 2 \<and>
   TimeWithinDay 1706868000000 = TimeWithinDay 1706608800000"
    by code_simp
  from dueAt_calendar_days [OF h1 h2 h3 h4 h5 h6] h1 h2 h4 h6 cal
  show ?thesis by blast
qed

text \<open>
  The claim as stated fails when the due date leaves the range of a \<open>Date\<close>: an
  interval of 100000000 days rated \<open>easy\<close> gives an interval of 300000000 days and an
  invalid date.
\<close>

theorem dueAt_invalid_for_long_interval:
  "intervalDays (nextState (nextSrs (utc_host 0)
     \<lparr>intervalDays = Some (Fin 100000000), ease = Some lit_2_5, reps = Some (Fin 3)\<rparr> Easy)) =
     Some (Fin 300000000) \<and>
   dueAt (nextSrs (utc_host 0)
     \<lparr>intervalDays = Some (Fin 100000000), ease = Some lit_2_5, reps = Some (Fin 3)\<rparr> Easy) = InvalidDate"
  by code_simp

text \<open>
  A day is a calendar day, not 24 hours: on the host on New York time, the word rated
  \<open>good\<close> on 9 March 2024 at 07:00 local time is due 23 hours later, at 07:00 local
  time on 10 March.
\<close>

lemma dueAt_across_clock_change:
  "dueAt (nextSrs (new_york_host 1709985600000) initialSrsState Good) =
     Date (1709985600000 + 23 * 3600000) \<and>
   LocalTime (new_york_host 1709985600000) (1709985600000 + 23 * 3600000) =
     LocalTime (new_york_host 1709985600000) 1709985600000 + 1 * msPerDay \<and>
   TimeWithinDay (LocalTime (new_york_host 1709985600000) 1709985600000) = 7 * 3600000"
  by code_simp

subsection \<open>The new interval is a whole number\<close>

text \<open>
  C8, as amended. When the stored \<open>intervalDays\<close> is not NaN, the new \<open>intervalDays\<close>
  is a whole number, at least 1 and at least 2 for \<open>easy\<close>, or it is \<open>+\<infinity>\<close>; when the
  stored \<open>intervalDays\<close> is missing or below \<open>2 ^ 1021\<close>, it is such a whole number.
\<close>

theorem interval_is_whole:
  "(intervalDays state \<noteq> Some NaN \<longrightarrow>
      intervalDays (nextState (nextSrs host state rating)) = Some PosInf \<or>
      (\<exists>k. intervalDays (nextState (nextSrs host state rating)) = Some (Fin (of_int k)) \<and>
         1 \<le> k \<and> (rating = Easy \<longrightarrow> 2 \<le> k))) \<and>
   (intervalDays state = None \<or>
      (\<exists>x. intervalDays state = Some x \<and> js_lt x (Fin (2 powi 1021))) \<longrightarrow>
      (\<exists>k. intervalDays (nextState (nextSrs host state rating)) = Some (Fin (of_int k)) \<and>
         1 \<le> k \<and> (rating = Easy \<longrightarrow> 2 \<le> k)))"
proof (intro conjI impI)
  assume "intervalDays state \<noteq> Some NaN"
  from interval_whole_or_inf [OF this, of host rating]
  show "intervalDays (nextState (nextSrs host state rating)) = Some PosInf \<or>
      (\<exists>k. intervalDays (nextState (nextSrs host state rating)) = Some (Fin (of_int k)) \<and>
         1 \<le> k \<and> (rating = Easy \<longrightarrow> 2 \<le> k))"
    by (auto simp: whole_from_def split: if_splits)
next
  assume "intervalDays state = None \<or>
      (\<exists>x. intervalDays state = Some x \<and> js_lt x (Fin (2 powi 1021)))"
  from interval_whole [OF this, of host rating]
  show "\<exists>k. intervalDays (nextState (nextSrs host state rating)) = Some (Fin (of_int k)) \<and>
         1 \<le> k \<and> (rating = Easy \<longrightarrow> 2 \<le> k)"
    by (auto simp: whole_from_def split: if_splits)
qed

theorem interval_is_whole_witness:
  "intervalDays \<lparr>intervalDays = Some (Fin (7 / 2)), ease = Some lit_2_5, reps = Some (Fin 5)\<rparr> \<noteq> Some NaN \<and>
   js_lt (Fin (7 / 2)) (Fin (2 powi 1021)) \<and>
   (\<exists>k. intervalDays (nextState (nextSrs (utc_host 0)
       \<lparr>intervalDays = Some (Fin (7 / 2)), ease = Some lit_2_5, reps = Some (Fin 5)\<rparr> Easy)) = Some (Fin (of_int k)) \<and>
       1 \<le> k \<and> (Easy = Easy \<longrightarrow> 2 \<le> k)) \<and>
   intervalDays (nextState (nextSrs (utc_host 0)
       \<lparr>intervalDays = Some (Fin (7 / 2)), ease = Some lit_2_5, reps = Some (Fin 5)\<rparr> Easy)) = Some (Fin 9)"
proof -
  have h1: "intervalDays \<lparr>intervalDays = Some (Fin (7 / 2)), ease = Some lit_2_5, reps = Some (Fin 5)\<rparr> \<noteq> Some NaN"
    by simp
  have h2: "js_lt (Fin (7 / 2)) (Fin (2 powi 1021))"
    by (simp add: js_lt_def)
  have h3: "intervalDays \<lparr>intervalDays = Some (Fin (7 / 2)), ease = Some lit_2_5, reps = Some (Fin 5)\<rparr> = None \<or>
      (\<exists>x. intervalDays \<lparr>intervalDays = Some (Fin (7 / 2)), ease = Some lit_2_5, reps = Some (Fin 5)\<rparr> = Some x \<and>
        js_lt x (Fin (2 powi 1021)))"
    using h2 by simp
  have v: "intervalDays (nextState (nextSrs (utc_host 0)
       \<lparr>intervalDays = Some (Fin (7 / 2)), ease = Some lit_2_5, reps = Some (Fin 5)\<rparr> Easy)) = Some (Fin 9)"
    by code_simp
  from interval_is_whole [of
      "\<lparr>intervalDays = Some (Fin (7 / 2)), ease = Some lit_2_5, reps = Some (Fin 5)\<rparr>" "utc_host 0" Easy,
      THEN conjunct2, rule_format, OF h3] h1 h2 v
  show ?thesis by blast
qed

text \<open>
  The claim as stated fails for a stored interval that is NaN or infinite: the new
  interval is then NaN or infinite, not a whole number.
\<close>

theorem interval_stays_NaN_or_infinite:
  "intervalDays (nextState (nextSrs (utc_host 0)
     \<lparr>intervalDays = Some NaN, ease = Some lit_2_5, reps = Some (Fin 1)\<rparr> Good)) = Some NaN \<and>
   intervalDays (nextState (nextSrs (utc_host 0)
     \<lparr>intervalDays = Some PosInf, ease = Some lit_2_5, reps = Some (Fin 1)\<rparr> Hard)) = Some PosInf"
  by code_simp

end
